theory Spec2Isabelle
  imports Complex_Main "HOL-Library.List_Lexorder" "HOL-Library.Char_ord"
begin

unbundle bit_operations_syntax

section \<open>Beam convolution operators of toast (ops/conviqt.py)\<close>

text \<open>
  A shallow embedding of \<^verbatim>\<open>SimConviqt\<close> and \<^verbatim>\<open>SimWeightedConviqt\<close>.
  Floating-point samples are real numbers, numpy arrays of one dimension are lists,
  Python exceptions are values of the type \<open>error\<close>, and a function that can raise
  returns \<open>error + 'a\<close> with \<open>Inl\<close> for the exception.
\<close>

subsection \<open>Exceptions\<close>

datatype error =
    RuntimeError
  | KeyError
  | NameError
  | TypeError
  | ValueError
  | IndexError
  | ZeroDivisionError

subsection \<open>Data model\<close>

text \<open>An attitude quaternion, one row of the \<^verbatim>\<open>quats\<close> array.\<close>

type_synonym quat = "real \<times> real \<times> real \<times> real"

text \<open>
  A focal plane maps a detector name to its row of properties; a row maps a column
  name to a cell. \<^verbatim>\<open>name in props.colnames\<close> is \<open>props name \<noteq> None\<close>, and
  \<^verbatim>\<open>props[name]\<close> raises \<^verbatim>\<open>KeyError\<close> on a column that is not there.
\<close>

type_synonym 'v row = "string \<rightharpoonup> 'v"
type_synonym 'v focalplane = "string \<rightharpoonup> 'v row"

text \<open>
  One view (interval) of an observation, as the operator reads it through its configured
  keys: \<^verbatim>\<open>views.shared[self.shared_flags][view]\<close>,
  \<^verbatim>\<open>views.detdata[self.det_flags][view]\<close>,
  \<^verbatim>\<open>views.detdata[self.detector_pointing.quats][view]\<close>,
  \<^verbatim>\<open>views.shared[self.hwp_angle][view]\<close> and
  \<^verbatim>\<open>views.detdata[self.det_data][view]\<close>. The detector data are keyed by detector
  name.
\<close>

record view =
  v_shared_flags :: "nat list"
  v_det_flags :: "string \<rightharpoonup> nat list"
  v_quats :: "string \<rightharpoonup> quat list"
  v_hwp_angle :: "real list"
  v_det_data :: "string \<rightharpoonup> real list"

record 'v obs =
  local_detectors :: "string list"
  focalplane :: "'v focalplane"
  views :: "view list"

text \<open>The traits of the operator that the modelled methods read.\<close>

record config =
  apply_flags :: bool
  shared_flags :: "string option"
  shared_flag_mask :: nat
  det_flags :: "string option"
  det_flag_mask :: nat
  calibrate :: bool
  dxx :: bool
  hwp_angle :: "string option"

text \<open>
  The collaborators whose code is outside the operator are parameters:
  \<open>to_radian\<close> is \<^verbatim>\<open>cell.to_value(u.radian)\<close>, \<open>as_number\<close> reads a cell
  as the plain number that \<^verbatim>\<open>_get_epsilon\<close> hands to the arithmetic,
  \<open>to_angles\<close> is \<^verbatim>\<open>qa.to_angles\<close> on one quaternion (the library
  applies it row by row), and \<open>engine\<close> is the value the convolution engine writes
  into the signal column for one pointing row \<open>(phi, theta, psi)\<close>, given a sky and
  a beam (the detector handed to it always has leakage 0).
\<close>

record ('v, 's, 'b) env =
  to_radian :: "'v \<Rightarrow> real"
  as_number :: "'v \<Rightarrow> real"
  to_angles :: "quat \<Rightarrow> real \<times> real \<times> real"
  engine :: "'s \<Rightarrow> 'b \<Rightarrow> real \<times> real \<times> real \<Rightarrow> real"

text \<open>A beam handle; \<open>normalized\<close> is what \<^verbatim>\<open>beam.normalized()\<close> reports.\<close>

record 'b beam =
  beam_alm :: 'b
  normalized :: bool

subsection \<open>Focal plane accessors\<close>

definition get_psi_pol :: "('v, 's, 'b) env \<Rightarrow> 'v focalplane \<Rightarrow> string \<Rightarrow> error + real" where
  "get_psi_pol E fp det =
     (case fp det of
        None \<Rightarrow> Inl RuntimeError
      | Some props \<Rightarrow>
          if props ''psi_pol'' \<noteq> None then
            (case props ''pol_angle'' of
               None \<Rightarrow> Inl KeyError
             | Some c \<Rightarrow> Inr (to_radian E c))
          else if props ''pol_angle'' \<noteq> None then
            (case props ''pol_angle'' of
               None \<Rightarrow> Inl KeyError
             | Some c \<Rightarrow> Inr (to_radian E c))
          else Inl RuntimeError)"

text \<open>
  \<^verbatim>\<open>_get_psi_uv\<close> tests the column \<^verbatim>\<open>psi_uv_deg\<close>, reads the column
  \<^verbatim>\<open>psi_uv\<close> and then returns the name \<^verbatim>\<open>psipol\<close>, which is bound nowhere:
  the \<^verbatim>\<open>return\<close> raises \<^verbatim>\<open>NameError\<close>.
\<close>

definition get_psi_uv :: "('v, 's, 'b) env \<Rightarrow> 'v focalplane \<Rightarrow> string \<Rightarrow> error + real" where
  "get_psi_uv E fp det =
     (case fp det of
        None \<Rightarrow> Inl RuntimeError
      | Some props \<Rightarrow>
          if props ''psi_uv_deg'' \<noteq> None then
            (case props ''psi_uv'' of
               None \<Rightarrow> Inl KeyError
             | Some c \<Rightarrow> Inl NameError)
          else Inl RuntimeError)"

definition get_epsilon :: "('v, 's, 'b) env \<Rightarrow> 'v focalplane \<Rightarrow> string \<Rightarrow> error + real" where
  "get_epsilon E fp det =
     (case fp det of
        None \<Rightarrow> Inl RuntimeError
      | Some props \<Rightarrow>
          (case props ''pol_leakage'' of
             Some c \<Rightarrow> Inr (as_number E c)
           | None \<Rightarrow> Inr 0))"

subsection \<open>The numpy operations the operator uses\<close>

text \<open>
  An in-place operation \<^verbatim>\<open>xs op= ys\<close> on arrays of one dimension: the right operand
  must have the length of the left one, or length 1 (it is then broadcast); any other
  length raises \<^verbatim>\<open>ValueError\<close>.
\<close>

definition np_inplace :: "('a \<Rightarrow> 'c \<Rightarrow> 'a) \<Rightarrow> 'a list \<Rightarrow> 'c list \<Rightarrow> error + 'a list" where
  "np_inplace f xs ys =
     (if length ys = length xs then Inr (map2 f xs ys)
      else if length ys = 1 then Inr (map (\<lambda>x. f x (hd ys)) xs)
      else Inl ValueError)"

text \<open>
  \<^verbatim>\<open>quats[flags != 0] = nullquat\<close>: a boolean index whose length is not the number of
  rows raises \<^verbatim>\<open>IndexError\<close>.
\<close>

definition nullquat :: quat where
  "nullquat = (0, 0, 0, 1)"

definition null_flagged :: "quat list \<Rightarrow> nat list \<Rightarrow> error + quat list" where
  "null_flagged quats flags =
     (if length flags = length quats
      then Inr (map2 (\<lambda>q f. if f \<noteq> 0 then nullquat else q) quats flags)
      else Inl IndexError)"

text \<open>
  \<^verbatim>\<open>convolved_data\<close> is \<^verbatim>\<open>None\<close> when the pointing has no rows, and an array
  otherwise.
\<close>

datatype buffer = PyNone | Array "real list"

text \<open>
  \<^verbatim>\<open>weights * convolve(...)\<close>, the left operand an array. With \<^verbatim>\<open>None\<close> on the
  right numpy works on objects, element by element: an empty array gives an empty
  array, and the first element of any other raises \<^verbatim>\<open>TypeError\<close>. Two arrays are
  broadcast.
\<close>

definition np_multiply :: "real list \<Rightarrow> buffer \<Rightarrow> error + real list" where
  "np_multiply ws b =
     (case b of
        PyNone \<Rightarrow> if ws = [] then Inr [] else Inl TypeError
      | Array ys \<Rightarrow>
          if length ys = length ws then Inr (map2 (*) ws ys)
          else if length ys = 1 then Inr (map (\<lambda>w. w * hd ys) ws)
          else if length ws = 1 then Inr (map (\<lambda>y. hd ws * y) ys)
          else Inl ValueError)"

text \<open>
  \<^verbatim>\<open>convolved_data += ys\<close>. \<^verbatim>\<open>None\<close> has no addition of its own, so Python falls
  back on the array's reflected addition, again element by element on objects.
\<close>

definition np_iadd :: "buffer \<Rightarrow> real list \<Rightarrow> error + buffer" where
  "np_iadd b ys =
     (case b of
        PyNone \<Rightarrow> if ys = [] then Inr (Array []) else Inl TypeError
      | Array xs \<Rightarrow>
          (case np_inplace (+) xs ys of
             Inl e \<Rightarrow> Inl e
           | Inr zs \<Rightarrow> Inr (Array zs)))"

subsection \<open>Pointing angles\<close>

text \<open>Lines 399 to 411 of \<^verbatim>\<open>get_pointing\<close>: the flags of one view, or \<^verbatim>\<open>None\<close>.\<close>

definition get_flags :: "config \<Rightarrow> string \<Rightarrow> view \<Rightarrow> error + nat list option" where
  "get_flags cfg det v =
     (if apply_flags cfg then
        (let flags =
           (case shared_flags cfg of
              None \<Rightarrow> None
            | Some k \<Rightarrow> Some (map (\<lambda>f. f AND shared_flag_mask cfg) (v_shared_flags v)))
         in case det_flags cfg of
              None \<Rightarrow> Inr flags
            | Some k \<Rightarrow>
                (case v_det_flags v det of
                   None \<Rightarrow> Inl KeyError
                 | Some df \<Rightarrow>
                     (let detflags = map (\<lambda>f. f AND det_flag_mask cfg) df
                      in case flags of
                           None \<Rightarrow> Inr (Some detflags)
                         | Some fl \<Rightarrow>
                             (case np_inplace (OR) fl detflags of
                                Inl e \<Rightarrow> Inl e
                              | Inr fl' \<Rightarrow> Inr (Some fl')))))
      else Inr None)"

text \<open>Lines 426 to 429: the polarization angle, with the basis offset when \<open>dxx\<close> is set.\<close>

definition effective_psi_pol ::
  "('v, 's, 'b) env \<Rightarrow> config \<Rightarrow> 'v focalplane \<Rightarrow> string \<Rightarrow> error + real" where
  "effective_psi_pol E cfg fp det =
     (case get_psi_pol E fp det of
        Inl e \<Rightarrow> Inl e
      | Inr psi_pol \<Rightarrow>
          if dxx cfg then
            (case get_psi_uv E fp det of
               Inl e \<Rightarrow> Inl e
             | Inr psi_uv \<Rightarrow> Inr (psi_pol + psi_uv))
          else Inr psi_pol)"

text \<open>The body of the loop over views, lines 399 to 438.\<close>

definition view_pointing ::
  "('v, 's, 'b) env \<Rightarrow> config \<Rightarrow> 'v focalplane \<Rightarrow> string \<Rightarrow> view
     \<Rightarrow> error + (real list \<times> real list \<times> real list \<times> real list)" where
  "view_pointing E cfg fp det v =
     (case get_flags cfg det v of
        Inl e \<Rightarrow> Inl e
      | Inr flags \<Rightarrow>
     (case v_quats v det of
        None \<Rightarrow> Inl KeyError
      | Some quats \<Rightarrow>
     (case (case flags of None \<Rightarrow> Inr quats | Some fl \<Rightarrow> null_flagged quats fl) of
        Inl e \<Rightarrow> Inl e
      | Inr quats' \<Rightarrow>
     (let angles = map (to_angles E) quats';
          theta = map fst angles;
          phi = map (\<lambda>a. fst (snd a)) angles;
          psi = map (\<lambda>a. snd (snd a)) angles
      in case effective_psi_pol E cfg fp det of
        Inl e \<Rightarrow> Inl e
      | Inr psi_pol \<Rightarrow>
     (let psi' = map (\<lambda>x. x - psi_pol) psi;
          ones = replicate (length psi') psi_pol
      in case (case hwp_angle cfg of
                 None \<Rightarrow> Inr ones
               | Some k \<Rightarrow> np_inplace (+) ones (map (\<lambda>h. 2 * h) (v_hwp_angle v))) of
        Inl e \<Rightarrow> Inl e
      | Inr psi_pol_arr \<Rightarrow> Inr (theta, phi, psi', psi_pol_arr))))))"

text \<open>
  The views the loops of \<^verbatim>\<open>get_pointing\<close>, \<^verbatim>\<open>calibrate_signal\<close> and
  \<^verbatim>\<open>save\<close> visit for a detector, in their order: observation by observation,
  skipping those where the detector is not local, and view by view.
\<close>

definition det_views :: "'v obs list \<Rightarrow> string \<Rightarrow> ('v focalplane \<times> view) list" where
  "det_views data det =
     concat (map (\<lambda>ob. map (\<lambda>v. (focalplane ob, v)) (views ob))
                 (filter (\<lambda>ob. det \<in> set (local_detectors ob)) data))"

text \<open>A loop whose body can raise stops at the first exception.\<close>

fun for_each :: "('a \<Rightarrow> error + 'c) \<Rightarrow> 'a list \<Rightarrow> error + 'c list" where
  "for_each f [] = Inr []"
| "for_each f (x # xs) =
     (case f x of
        Inl e \<Rightarrow> Inl e
      | Inr y \<Rightarrow>
          (case for_each f xs of
             Inl e \<Rightarrow> Inl e
           | Inr ys \<Rightarrow> Inr (y # ys)))"

definition get_pointing ::
  "('v, 's, 'b) env \<Rightarrow> config \<Rightarrow> 'v obs list \<Rightarrow> string
     \<Rightarrow> error + (real list \<times> real list \<times> real list \<times> real list)" where
  "get_pointing E cfg data det =
     (case for_each (\<lambda>(fp, v). view_pointing E cfg fp det v) (det_views data det) of
        Inl e \<Rightarrow> Inl e
      | Inr rs \<Rightarrow>
          Inr (concat (map (\<lambda>(th, ph, ps, pp). th) rs),
               concat (map (\<lambda>(th, ph, ps, pp). ph) rs),
               concat (map (\<lambda>(th, ph, ps, pp). ps) rs),
               concat (map (\<lambda>(th, ph, ps, pp). pp) rs)))"

subsection \<open>Convolution\<close>

text \<open>
  \<^verbatim>\<open>arr[:, k] = xs\<close> on a pointing of \<open>n\<close> rows: \<open>xs\<close> has \<open>n\<close> values, or one
  that is broadcast.
\<close>

definition assign_column :: "nat \<Rightarrow> real list \<Rightarrow> error + real list" where
  "assign_column n xs =
     (if length xs = n then Inr xs
      else if length xs = 1 then Inr (replicate n (hd xs))
      else Inl ValueError)"

text \<open>The pointing rows \<open>(phi, theta, psi)\<close>; the columns are written only when there are rows.\<close>

definition get_buffer ::
  "real list \<Rightarrow> real list \<Rightarrow> real list \<Rightarrow> error + (real \<times> real \<times> real) list" where
  "get_buffer theta phi psi =
     (let nrow = length theta
      in if nrow > 0 then
           (case assign_column nrow phi of
              Inl e \<Rightarrow> Inl e
            | Inr c0 \<Rightarrow>
           (case assign_column nrow theta of
              Inl e \<Rightarrow> Inl e
            | Inr c1 \<Rightarrow>
           (case assign_column nrow psi of
              Inl e \<Rightarrow> Inl e
            | Inr c2 \<Rightarrow> Inr (zip c0 (zip c1 c2)))))
         else Inr [])"

definition convolve ::
  "('v, 's, 'b) env \<Rightarrow> 's \<Rightarrow> 'b beam \<Rightarrow> (real \<times> real \<times> real) list \<Rightarrow> buffer" where
  "convolve E sky bm pnt =
     (if length pnt > 0 then Array (map (engine E sky (beam_alm bm)) pnt) else PyNone)"

subsection \<open>Calibration\<close>

text \<open>
  \<^verbatim>\<open>convolved_data[offset : offset + nsample] *= 2 / (1 + epsilon)\<close>. The slice is
  taken first (\<^verbatim>\<open>None\<close> cannot be sliced), then the factor is computed (Python
  numbers raise on a division by zero), then the slice is scaled in place; a slice is
  cut at the end of the array.
\<close>

fun calibrate_views ::
  "string \<Rightarrow> real \<Rightarrow> view list \<Rightarrow> nat \<times> buffer \<Rightarrow> error + (nat \<times> buffer)" where
  "calibrate_views det epsilon [] st = Inr st"
| "calibrate_views det epsilon (v # vs) (offset, buf) =
     (case v_det_data v det of
        None \<Rightarrow> Inl KeyError
      | Some seg \<Rightarrow>
          (let nsample = length seg
           in case buf of
                PyNone \<Rightarrow> Inl TypeError
              | Array xs \<Rightarrow>
                  if 1 + epsilon = 0 then Inl ZeroDivisionError
                  else calibrate_views det epsilon vs
                         (offset + nsample,
                          Array (take offset xs
                                 @ map (\<lambda>x. x * (2 / (1 + epsilon))) (take nsample (drop offset xs))
                                 @ drop (offset + nsample) xs))))"

fun calibrate_obs ::
  "('v, 's, 'b) env \<Rightarrow> string \<Rightarrow> 'v obs list \<Rightarrow> nat \<times> buffer \<Rightarrow> error + (nat \<times> buffer)" where
  "calibrate_obs E det [] st = Inr st"
| "calibrate_obs E det (ob # obs) st =
     (if det \<in> set (local_detectors ob) then
        (case get_epsilon E (focalplane ob) det of
           Inl e \<Rightarrow> Inl e
         | Inr epsilon \<Rightarrow>
             (case calibrate_views det epsilon (views ob) st of
                Inl e \<Rightarrow> Inl e
              | Inr st' \<Rightarrow> calibrate_obs E det obs st'))
      else calibrate_obs E det obs st)"

definition calibrate_signal ::
  "('v, 's, 'b) env \<Rightarrow> config \<Rightarrow> 'v obs list \<Rightarrow> string \<Rightarrow> 'b beam \<Rightarrow> buffer \<Rightarrow> error + buffer" where
  "calibrate_signal E cfg data det bm convolved_data =
     (if \<not> calibrate cfg then Inr convolved_data
      else if normalized bm then Inr convolved_data
      else (case calibrate_obs E det data (0, convolved_data) of
              Inl e \<Rightarrow> Inl e
            | Inr st \<Rightarrow> Inr (snd st)))"

subsection \<open>Accumulation\<close>

text \<open>
  \<^verbatim>\<open>view[det] += convolved_data[offset : offset + nsample]\<close>, view by view; the
  observations come back with the detector's data updated.
\<close>

fun save_views ::
  "string \<Rightarrow> buffer \<Rightarrow> view list \<Rightarrow> nat \<Rightarrow> error + (nat \<times> view list)" where
  "save_views det buf [] offset = Inr (offset, [])"
| "save_views det buf (v # vs) offset =
     (case v_det_data v det of
        None \<Rightarrow> Inl KeyError
      | Some seg \<Rightarrow>
          (let nsample = length seg
           in case buf of
                PyNone \<Rightarrow> Inl TypeError
              | Array xs \<Rightarrow>
                  (case np_inplace (+) seg (take nsample (drop offset xs)) of
                     Inl e \<Rightarrow> Inl e
                   | Inr seg' \<Rightarrow>
                       (case save_views det buf vs (offset + nsample) of
                          Inl e \<Rightarrow> Inl e
                        | Inr (offset', vs') \<Rightarrow>
                            Inr (offset', v\<lparr>v_det_data := (v_det_data v)(det \<mapsto> seg')\<rparr> # vs')))))"

fun save_obs ::
  "string \<Rightarrow> buffer \<Rightarrow> 'v obs list \<Rightarrow> nat \<Rightarrow> error + (nat \<times> 'v obs list)" where
  "save_obs det buf [] offset = Inr (offset, [])"
| "save_obs det buf (ob # obs) offset =
     (if det \<in> set (local_detectors ob) then
        (case save_views det buf (views ob) offset of
           Inl e \<Rightarrow> Inl e
         | Inr (offset', vs') \<Rightarrow>
             (case save_obs det buf obs offset' of
                Inl e \<Rightarrow> Inl e
              | Inr (offset'', obs') \<Rightarrow> Inr (offset'', ob\<lparr>views := vs'\<rparr> # obs')))
      else
        (case save_obs det buf obs offset of
           Inl e \<Rightarrow> Inl e
         | Inr (offset', obs') \<Rightarrow> Inr (offset', ob # obs')))"

definition save :: "'v obs list \<Rightarrow> string \<Rightarrow> buffer \<Rightarrow> error + 'v obs list" where
  "save data det convolved_data =
     (case save_obs det convolved_data data 0 of
        Inl e \<Rightarrow> Inl e
      | Inr st \<Rightarrow> Inr (snd st))"

subsection \<open>One detector of the two strategies\<close>

text \<open>
  Lines 265 to 272 of \<^verbatim>\<open>SimConviqt._exec\<close>, for one detector whose sky and beam are
  loaded.
\<close>

definition exec_det ::
  "('v, 's, 'b) env \<Rightarrow> config \<Rightarrow> 'v obs list \<Rightarrow> string \<Rightarrow> 's \<Rightarrow> 'b beam \<Rightarrow> error + 'v obs list" where
  "exec_det E cfg data det sky bm =
     (case get_pointing E cfg data det of
        Inl e \<Rightarrow> Inl e
      | Inr (theta, phi, psi, psi_pol) \<Rightarrow>
     (case get_buffer theta phi psi of
        Inl e \<Rightarrow> Inl e
      | Inr pnt \<Rightarrow>
     (case calibrate_signal E cfg data det bm (convolve E sky bm pnt) of
        Inl e \<Rightarrow> Inl e
      | Inr convolved_data \<Rightarrow> save data det convolved_data)))"

text \<open>
  Lines 624 to 640 of \<^verbatim>\<open>SimWeightedConviqt._exec\<close>: the three convolutions and
  their combination. \<^verbatim>\<open>psi_pol\<close> is an array, or the empty list when the detector has
  no view; twice either is taken element by element.
\<close>

definition weighted_convolve ::
  "('v, 's, 'b) env \<Rightarrow> 's \<Rightarrow> 'b beam \<Rightarrow> 'b beam \<Rightarrow> 'b beam
     \<Rightarrow> real list \<Rightarrow> real list \<Rightarrow> real list \<Rightarrow> real list \<Rightarrow> error + buffer" where
  "weighted_convolve E sky beamI00 beam0I0 beam00I theta phi psi psi_pol =
     (case get_buffer theta phi psi of
        Inl e \<Rightarrow> Inl e
      | Inr pntI \<Rightarrow>
     (let convolved_data = convolve E sky beamI00 pntI
      in case get_buffer theta phi psi of
        Inl e \<Rightarrow> Inl e
      | Inr pntQ \<Rightarrow>
     (case np_multiply (map (\<lambda>a. cos (2 * a)) psi_pol) (convolve E sky beam0I0 pntQ) of
        Inl e \<Rightarrow> Inl e
      | Inr q \<Rightarrow>
     (case np_iadd convolved_data q of
        Inl e \<Rightarrow> Inl e
      | Inr convolved_data' \<Rightarrow>
     (case get_buffer theta phi psi of
        Inl e \<Rightarrow> Inl e
      | Inr pntU \<Rightarrow>
     (case np_multiply (map (\<lambda>a. sin (2 * a)) psi_pol) (convolve E sky beam00I pntU) of
        Inl e \<Rightarrow> Inl e
      | Inr u \<Rightarrow> np_iadd convolved_data' u))))))"

text \<open>Lines 622 to 650 of \<^verbatim>\<open>SimWeightedConviqt._exec\<close>, for one detector.\<close>

definition exec_weighted_det ::
  "('v, 's, 'b) env \<Rightarrow> config \<Rightarrow> 'v obs list \<Rightarrow> string \<Rightarrow> 's
     \<Rightarrow> 'b beam \<Rightarrow> 'b beam \<Rightarrow> 'b beam \<Rightarrow> error + 'v obs list" where
  "exec_weighted_det E cfg data det sky beamI00 beam0I0 beam00I =
     (case get_pointing E cfg data det of
        Inl e \<Rightarrow> Inl e
      | Inr (theta, phi, psi, psi_pol) \<Rightarrow>
     (case weighted_convolve E sky beamI00 beam0I0 beam00I theta phi psi psi_pol of
        Inl e \<Rightarrow> Inl e
      | Inr combined \<Rightarrow>
     (case calibrate_signal E cfg data det beamI00 combined of
        Inl e \<Rightarrow> Inl e
      | Inr convolved_data \<Rightarrow> save data det convolved_data)))"

subsection \<open>The detectors of all processes\<close>

text \<open>
  The communicator is the list of its processes, rank 0 first; a process is the list of
  the observations it owns. \<open>sel\<close> is \<^verbatim>\<open>obs.select_local_detectors(detectors)\<close>.
  \<^verbatim>\<open>gather\<close> hands the root the values of all ranks in rank order, the root adds every
  set to its own and sorts, and \<^verbatim>\<open>bcast\<close> hands every rank the root's list.
\<close>

definition my_dets :: "('o \<Rightarrow> string list) \<Rightarrow> 'o list \<Rightarrow> string set" where
  "my_dets sel local_obs = set (concat (map sel local_obs))"

fun get_all_detectors :: "('o \<Rightarrow> string list) \<Rightarrow> 'o list list \<Rightarrow> string list list" where
  "get_all_detectors sel [] = []"
| "get_all_detectors sel (rank0 # others) =
     (let all_dets = map (my_dets sel) (rank0 # others);
          rank0_dets = fold (\<lambda>some_dets acc. acc \<union> some_dets) all_dets (my_dets sel rank0);
          sorted_dets = sorted_list_of_set rank0_dets
      in map (\<lambda>rank. sorted_dets) (rank0 # others))"

subsection \<open>Streams of a detector\<close>

text \<open>
  The quaternions of a detector over all the views the loops visit, in their order: the
  samples that \<^verbatim>\<open>get_pointing\<close> converts.
\<close>

definition quat_stream :: "'v obs list \<Rightarrow> string \<Rightarrow> quat list" where
  "quat_stream data det =
     concat (map (\<lambda>(fp, v). case v_quats v det of None \<Rightarrow> [] | Some quats \<Rightarrow> quats)
                 (det_views data det))"

text \<open>
  The number of samples of a detector in a view, \<^verbatim>\<open>len(view[det])\<close> where the view
  holds the detector.
\<close>

definition nsample :: "string \<Rightarrow> view \<Rightarrow> nat" where
  "nsample det v = (case v_det_data v det of None \<Rightarrow> 0 | Some seg \<Rightarrow> length seg)"

text \<open>
  The leakage that \<^verbatim>\<open>calibrate_signal\<close> reads for each sample of a detector: that
  of the focal plane of the observation the sample belongs to.
\<close>

definition epsilon_stream :: "('v, 's, 'b) env \<Rightarrow> 'v obs list \<Rightarrow> string \<Rightarrow> real list" where
  "epsilon_stream E data det =
     concat (map (\<lambda>(fp, v). replicate (nsample det v)
                                (case get_epsilon E fp det of Inl e \<Rightarrow> 0 | Inr epsilon \<Rightarrow> epsilon))
                 (det_views data det))"

text \<open>
  What the container provides to \<^verbatim>\<open>calibrate_signal\<close>: wherever the detector is
  local, the focal plane describes it, its leakage is not \<open>-1\<close>, and every view holds
  its data.
\<close>

definition calibration_ready :: "('v, 's, 'b) env \<Rightarrow> 'v obs list \<Rightarrow> string \<Rightarrow> bool" where
  "calibration_ready E data det =
     list_all (\<lambda>ob. det \<notin> set (local_detectors ob)
                 \<or> (focalplane ob det \<noteq> None
                    \<and> (case get_epsilon E (focalplane ob) det of Inl e \<Rightarrow> False | Inr epsilon \<Rightarrow> 1 + epsilon \<noteq> 0)
                    \<and> list_all (\<lambda>v. v_det_data v det \<noteq> None) (views ob))) data"

subsection \<open>The data of a detector\<close>

text \<open>
  What the views hold for a detector, \<^verbatim>\<open>view[det]\<close> for each view the loops visit,
  in their order; \<open>None\<close> where a view has no data of the detector.
\<close>

definition det_signals :: "'v obs list \<Rightarrow> string \<Rightarrow> real list option list" where
  "det_signals data det = map (\<lambda>(fp, v). v_det_data v det) (det_views data det)"

text \<open>
  The number of samples of the last view that has any, 0 when every view is empty.
\<close>

definition last_run :: "real list list \<Rightarrow> nat" where
  "last_run segs = (case filter (\<lambda>s. s \<noteq> []) segs of [] \<Rightarrow> 0 | s # ss \<Rightarrow> length (last (s # ss)))"

subsection \<open>The flag mask of a sample\<close>

text \<open>
  The combined mask of sample \<open>i\<close> of a view, read off the flag streams themselves:
  the shared flag under \<^verbatim>\<open>shared_flag_mask\<close>, or-ed with the detector flag under
  \<^verbatim>\<open>det_flag_mask\<close>. A stream whose key is not configured contributes no bit.
\<close>

definition flag_mask :: "config \<Rightarrow> view \<Rightarrow> string \<Rightarrow> nat \<Rightarrow> nat" where
  "flag_mask cfg v det i =
     (case shared_flags cfg of
        None \<Rightarrow> 0
      | Some k \<Rightarrow> v_shared_flags v ! i AND shared_flag_mask cfg)
     OR
     (case det_flags cfg of
        None \<Rightarrow> 0
      | Some k \<Rightarrow>
          (case v_det_flags v det of
             None \<Rightarrow> 0
           | Some df \<Rightarrow> df ! i AND det_flag_mask cfg))"

text \<open>
  When both streams are configured they have one flag per sample each, as the views of
  the container have; a detector stream of another length would be broadcast or refused
  by numpy.
\<close>

definition flags_aligned :: "config \<Rightarrow> view \<Rightarrow> string \<Rightarrow> bool" where
  "flags_aligned cfg v det =
     (case (shared_flags cfg, det_flags cfg, v_det_flags v det) of
        (Some ks, Some kd, Some df) \<Rightarrow> length df = length (v_shared_flags v)
      | _ \<Rightarrow> True)"

subsection \<open>A small data set\<close>

text \<open>
  One detector \<open>d\<close> with one view of two samples, the second one flagged. The cells of
  the focal plane are numbers in radians, and the stand-in for the angle conversion
  returns the first three components of the quaternion.
\<close>

definition demo_env :: "(real, unit, unit) env" where
  "demo_env = \<lparr>to_radian = (\<lambda>c. c), as_number = (\<lambda>c. c),
               to_angles = (\<lambda>(x, y, z, w). (x, y, z)), engine = (\<lambda>s b p. 1)\<rparr>"

definition demo_cfg :: config where
  "demo_cfg = \<lparr>apply_flags = True, shared_flags = Some ''flags'', shared_flag_mask = 1,
               det_flags = Some ''flags'', det_flag_mask = 1, calibrate = True, dxx = False,
               hwp_angle = Some ''hwp_angle''\<rparr>"

definition demo_view :: view where
  "demo_view = \<lparr>v_shared_flags = [0, 1], v_det_flags = [''d'' \<mapsto> [0, 0]],
                v_quats = [''d'' \<mapsto> [(1, 2, 3, 4), (5, 6, 7, 8)]],
                v_hwp_angle = [0, pi / 8], v_det_data = [''d'' \<mapsto> [0, 0]]\<rparr>"

definition demo_obs :: "real row \<Rightarrow> real obs" where
  "demo_obs props = \<lparr>local_detectors = [''d''], focalplane = [''d'' \<mapsto> props],
                     views = [demo_view]\<rparr>"

definition demo_beam :: "unit beam" where
  "demo_beam = \<lparr>beam_alm = (), normalized = False\<rparr>"

section \<open>Auxiliary facts\<close>

subsection \<open>Loops and arrays\<close>

lemma for_each_list_all2:
  "for_each f xs = Inr ys \<Longrightarrow> list_all2 (\<lambda>x y. f x = Inr y) xs ys"
  by (induction xs arbitrary: ys) (auto split: sum.splits)

lemma list_all2_rightD:
  "list_all2 P xs ys \<Longrightarrow> y \<in> set ys \<Longrightarrow> \<exists>x\<in>set xs. P x y"
  by (induction rule: list_all2_induct) auto

lemma np_inplace_length: "np_inplace f xs ys = Inr zs \<Longrightarrow> length zs = length xs"
  by (auto simp: np_inplace_def split: if_splits)

lemma null_flagged_length: "null_flagged quats fl = Inr qs \<Longrightarrow> length qs = length quats"
  by (auto simp: null_flagged_def split: if_splits)

lemma concat_lengths_eq:
  "list_all (\<lambda>r. length (f r) = length (g r)) rs \<Longrightarrow>
   length (concat (map f rs)) = length (concat (map g rs))"
  by (induction rs) auto


lemma map2_scale_replicate:
  "length m1 = n \<Longrightarrow>
   map2 (\<lambda>x eps. x * (2 / (1 + eps))) (m1 @ m2) (replicate n e @ es)
     = map (\<lambda>x. x * (2 / (1 + e))) m1 @ map2 (\<lambda>x eps. x * (2 / (1 + eps))) m2 es"
  by (induction m1 arbitrary: n) auto

lemma map2_const_stream:
  "set es \<subseteq> {e} \<Longrightarrow> length xs = length es \<Longrightarrow> map2 g xs es = map (\<lambda>x. g x e) xs"
  by (induction xs es rule: list_induct2') auto

lemma map2_add_zero: "length xs = n \<Longrightarrow> map2 (+) (replicate n (0::real)) xs = xs"
  by (induction xs arbitrary: n) auto

lemma det_views_Cons:
  "det_views (ob # obs) det =
     (if det \<in> set (local_detectors ob) then map (\<lambda>v. (focalplane ob, v)) (views ob) else [])
     @ det_views obs det"
  by (simp add: det_views_def)

subsection \<open>Pointing angles\<close>

lemma get_psi_uv_raises: "get_psi_uv E fp det \<noteq> Inr x"
  by (simp add: get_psi_uv_def split: option.splits)

lemma view_pointing_InrD:
  assumes "view_pointing E cfg fp det v = Inr (th, ph, ps, pp)"
  shows "\<exists>flags quats quats' eff.
      get_flags cfg det v = Inr flags \<and> v_quats v det = Some quats
    \<and> (case flags of None \<Rightarrow> quats' = quats | Some fl \<Rightarrow> null_flagged quats fl = Inr quats')
    \<and> length quats' = length quats
    \<and> effective_psi_pol E cfg fp det = Inr eff
    \<and> th = map (\<lambda>q. fst (to_angles E q)) quats'
    \<and> ph = map (\<lambda>q. fst (snd (to_angles E q))) quats'
    \<and> ps = map (\<lambda>q. snd (snd (to_angles E q)) - eff) quats'
    \<and> (case hwp_angle cfg of
          None \<Rightarrow> pp = replicate (length quats') eff
        | Some k \<Rightarrow> np_inplace (+) (replicate (length quats') eff)
                      (map (\<lambda>h. 2 * h) (v_hwp_angle v)) = Inr pp)"
  using assms
  by (auto simp: view_pointing_def Let_def comp_def split: sum.splits option.splits
           dest: null_flagged_length)

lemma view_pointing_lengths:
  assumes "view_pointing E cfg fp det v = Inr (th, ph, ps, pp)"
  shows "length ph = length th \<and> length ps = length th \<and> length pp = length th"
proof -
  from view_pointing_InrD [OF assms] obtain quats' eff where
    th: "th = map (\<lambda>q. fst (to_angles E q)) quats'"
    and ph: "ph = map (\<lambda>q. fst (snd (to_angles E q))) quats'"
    and ps: "ps = map (\<lambda>q. snd (snd (to_angles E q)) - eff) quats'"
    and pp: "(case hwp_angle cfg of
          None \<Rightarrow> pp = replicate (length quats') eff
        | Some k \<Rightarrow> np_inplace (+) (replicate (length quats') eff)
                      (map (\<lambda>h. 2 * h) (v_hwp_angle v)) = Inr pp)"
    by blast
  have "length pp = length quats'"
  proof (cases "hwp_angle cfg")
    case None
    with pp show ?thesis by simp
  next
    case (Some k)
    with pp have "np_inplace (+) (replicate (length quats') eff)
                      (map (\<lambda>h. 2 * h) (v_hwp_angle v)) = Inr pp" by simp
    from np_inplace_length [OF this] show ?thesis by simp
  qed
  with th ph ps show ?thesis by simp
qed

lemma get_pointing_InrD:
  assumes "get_pointing E cfg data det = Inr (th, ph, ps, pp)"
  shows "\<exists>rs. list_all2 (\<lambda>(fp, v) r. view_pointing E cfg fp det v = Inr r) (det_views data det) rs
    \<and> th = concat (map (\<lambda>(th, ph, ps, pp). th) rs)
    \<and> ph = concat (map (\<lambda>(th, ph, ps, pp). ph) rs)
    \<and> ps = concat (map (\<lambda>(th, ph, ps, pp). ps) rs)
    \<and> pp = concat (map (\<lambda>(th, ph, ps, pp). pp) rs)"
proof -
  from assms obtain rs where
    rs: "for_each (\<lambda>(fp, v). view_pointing E cfg fp det v) (det_views data det) = Inr rs"
    and eqs: "th = concat (map (\<lambda>(th, ph, ps, pp). th) rs)"
      "ph = concat (map (\<lambda>(th, ph, ps, pp). ph) rs)"
      "ps = concat (map (\<lambda>(th, ph, ps, pp). ps) rs)"
      "pp = concat (map (\<lambda>(th, ph, ps, pp). pp) rs)"
    by (auto simp: get_pointing_def split: sum.splits)
  have "list_all2 (\<lambda>x y. (\<lambda>(fp, v). view_pointing E cfg fp det v) x = Inr y) (det_views data det) rs"
    by (rule for_each_list_all2 [OF rs])
  then have "list_all2 (\<lambda>(fp, v) r. view_pointing E cfg fp det v = Inr r) (det_views data det) rs"
    by (simp add: case_prod_unfold)
  with eqs show ?thesis by blast
qed

lemma get_pointing_lengths:
  assumes "get_pointing E cfg data det = Inr (th, ph, ps, pp)"
  shows "length ph = length th \<and> length ps = length th \<and> length pp = length th"
proof -
  from get_pointing_InrD [OF assms] obtain rs where
    rs: "list_all2 (\<lambda>(fp, v) r. view_pointing E cfg fp det v = Inr r) (det_views data det) rs"
    and th: "th = concat (map (\<lambda>(th, ph, ps, pp). th) rs)"
    and ph: "ph = concat (map (\<lambda>(th, ph, ps, pp). ph) rs)"
    and ps: "ps = concat (map (\<lambda>(th, ph, ps, pp). ps) rs)"
    and pp: "pp = concat (map (\<lambda>(th, ph, ps, pp). pp) rs)"
    by blast
  have all: "\<forall>r\<in>set rs. \<exists>fp v. view_pointing E cfg fp det v = Inr r"
    using rs by (auto dest!: list_all2_rightD split: prod.splits)
  have a: "list_all (\<lambda>r. length ((\<lambda>(th, ph, ps, pp). ph) r) = length ((\<lambda>(th, ph, ps, pp). th) r)) rs"
    using all by (auto simp: list_all_iff dest: view_pointing_lengths)
  have b: "list_all (\<lambda>r. length ((\<lambda>(th, ph, ps, pp). ps) r) = length ((\<lambda>(th, ph, ps, pp). th) r)) rs"
    using all by (auto simp: list_all_iff dest: view_pointing_lengths)
  have c: "list_all (\<lambda>r. length ((\<lambda>(th, ph, ps, pp). pp) r) = length ((\<lambda>(th, ph, ps, pp). th) r)) rs"
    using all by (auto simp: list_all_iff dest: view_pointing_lengths)
  show ?thesis
    unfolding th ph ps pp
    using concat_lengths_eq [OF a] concat_lengths_eq [OF b] concat_lengths_eq [OF c] by simp
qed


lemma get_flags_masks:
  assumes "get_flags cfg det v = Inr flags" and "apply_flags cfg" and "flags_aligned cfg v det"
  shows "case flags of
           None \<Rightarrow> shared_flags cfg = None \<and> det_flags cfg = None
         | Some fl \<Rightarrow> (\<forall>i<length fl. fl ! i = flag_mask cfg v det i)"
proof (cases "shared_flags cfg")
  case None
  note sh = this
  show ?thesis
  proof (cases "det_flags cfg")
    case None
    with sh assms show ?thesis by (simp add: get_flags_def)
  next
    case (Some kd)
    with sh assms show ?thesis
      by (auto simp: get_flags_def flag_mask_def split: option.splits)
  qed
next
  case (Some ks)
  note sh = this
  show ?thesis
  proof (cases "det_flags cfg")
    case None
    with sh assms show ?thesis
      by (auto simp: get_flags_def flag_mask_def)
  next
    case (Some kd)
    with sh assms show ?thesis
      by (auto simp: get_flags_def flag_mask_def flags_aligned_def np_inplace_def Let_def
          split: option.splits if_splits)
  qed
qed

lemma get_flags_det_present:
  assumes "get_flags cfg det v = Inr flags" and "apply_flags cfg"
  shows "det_flags cfg \<noteq> None \<longrightarrow> v_det_flags v det \<noteq> None"
  using assms by (auto simp: get_flags_def split: option.splits)

lemma view_pointing_masked:
  assumes vp: "view_pointing E cfg fp det v = Inr (th, ph, ps, pp)"
    and ap: "apply_flags cfg"
  shows "\<exists>quats eff. v_quats v det = Some quats
    \<and> (det_flags cfg \<noteq> None \<longrightarrow> v_det_flags v det \<noteq> None)
    \<and> effective_psi_pol E cfg fp det = Inr eff
    \<and> length th = length quats \<and> length ph = length quats \<and> length ps = length quats
    \<and> (flags_aligned cfg v det \<longrightarrow>
         (\<forall>i<length quats.
            (if flag_mask cfg v det i \<noteq> 0
             then th ! i = fst (to_angles E nullquat)
                \<and> ph ! i = fst (snd (to_angles E nullquat))
                \<and> ps ! i = snd (snd (to_angles E nullquat)) - eff
             else th ! i = fst (to_angles E (quats ! i))
                \<and> ph ! i = fst (snd (to_angles E (quats ! i)))
                \<and> ps ! i = snd (snd (to_angles E (quats ! i))) - eff)))"
proof -
  from view_pointing_InrD [OF vp] obtain flags quats quats' eff where
    fl: "get_flags cfg det v = Inr flags" and q: "v_quats v det = Some quats"
    and nf: "(case flags of None \<Rightarrow> quats' = quats | Some fl \<Rightarrow> null_flagged quats fl = Inr quats')"
    and len: "length quats' = length quats"
    and eff: "effective_psi_pol E cfg fp det = Inr eff"
    and th: "th = map (\<lambda>q. fst (to_angles E q)) quats'"
    and ph: "ph = map (\<lambda>q. fst (snd (to_angles E q))) quats'"
    and ps: "ps = map (\<lambda>q. snd (snd (to_angles E q)) - eff) quats'"
    by blast
  have main: "flags_aligned cfg v det \<longrightarrow>
         (\<forall>i<length quats.
            (if flag_mask cfg v det i \<noteq> 0
             then th ! i = fst (to_angles E nullquat)
                \<and> ph ! i = fst (snd (to_angles E nullquat))
                \<and> ps ! i = snd (snd (to_angles E nullquat)) - eff
             else th ! i = fst (to_angles E (quats ! i))
                \<and> ph ! i = fst (snd (to_angles E (quats ! i)))
                \<and> ps ! i = snd (snd (to_angles E (quats ! i))) - eff))"
  proof (intro impI allI)
    fix i assume al: "flags_aligned cfg v det" and i: "i < length quats"
    note m = get_flags_masks [OF fl ap al]
    have qi: "quats' ! i = (if flag_mask cfg v det i \<noteq> 0 then nullquat else quats ! i)"
    proof (cases flags)
      case None
      with m have "shared_flags cfg = None" "det_flags cfg = None" by simp_all
      then have "flag_mask cfg v det i = 0" by (simp add: flag_mask_def)
      with None nf show ?thesis by simp
    next
      case (Some fl')
      with nf have nfl: "null_flagged quats fl' = Inr quats'" by simp
      then have lq: "length fl' = length quats"
        and q': "quats' = map2 (\<lambda>q f. if f \<noteq> 0 then nullquat else q) quats fl'"
        by (auto simp: null_flagged_def split: if_splits)
      from Some m i lq have "fl' ! i = flag_mask cfg v det i" by simp
      with i lq show ?thesis unfolding q' by simp
    qed
    from i len have "th ! i = fst (to_angles E (quats' ! i))"
      "ph ! i = fst (snd (to_angles E (quats' ! i)))"
      "ps ! i = snd (snd (to_angles E (quats' ! i))) - eff"
      unfolding th ph ps by simp_all
    with qi show "(if flag_mask cfg v det i \<noteq> 0
             then th ! i = fst (to_angles E nullquat)
                \<and> ph ! i = fst (snd (to_angles E nullquat))
                \<and> ps ! i = snd (snd (to_angles E nullquat)) - eff
             else th ! i = fst (to_angles E (quats ! i))
                \<and> ph ! i = fst (snd (to_angles E (quats ! i)))
                \<and> ps ! i = snd (snd (to_angles E (quats ! i))) - eff)"
      by simp
  qed
  from th ph ps len have l: "length th = length quats" "length ph = length quats" "length ps = length quats"
    by simp_all
  show ?thesis
    by (rule exI [of _ quats], rule exI [of _ eff],
        intro conjI, rule q, rule get_flags_det_present [OF fl ap], rule eff,
        rule l, rule l, rule l, rule main)
qed

lemma concat_lengths_views:
  "list_all2 (\<lambda>(fp, v) r. \<exists>quats. v_quats v det = Some quats \<and> length (f r) = length quats) xs rs
   \<Longrightarrow> length (concat (map f rs))
       = length (concat (map (\<lambda>(fp, v). case v_quats v det of None \<Rightarrow> [] | Some quats \<Rightarrow> quats) xs))"
  by (induction rule: list_all2_induct) auto

lemma demo_view_pointing:
  "view_pointing demo_env demo_cfg [''d'' \<mapsto> [''pol_angle'' \<mapsto> a]] ''d'' demo_view
     = Inr ([1, 0], [2, 0], [3 - a, - a], [a, a + pi / 4])"
  by (simp add: view_pointing_def get_flags_def effective_psi_pol_def get_psi_pol_def
        demo_view_def demo_cfg_def demo_env_def null_flagged_def nullquat_def np_inplace_def)

lemma demo_get_pointing:
  "get_pointing demo_env demo_cfg [demo_obs [''pol_angle'' \<mapsto> a]] ''d''
     = Inr ([1, 0], [2, 0], [3 - a, - a], [a, a + pi / 4])"
  by (simp add: get_pointing_def det_views_def demo_obs_def demo_view_pointing)

subsection \<open>Convolution\<close>

lemma get_buffer_aligned:
  "length phi = length theta \<Longrightarrow> length psi = length theta \<Longrightarrow>
   get_buffer theta phi psi = Inr (zip phi (zip theta psi))"
  by (cases theta) (auto simp: get_buffer_def assign_column_def Let_def)

lemma weighted_convolve_aligned:
  assumes "length phi = length theta" "length psi = length theta" "length psi_pol = length theta"
  shows "\<exists>sig. weighted_convolve E sky bI bQ bU theta phi psi psi_pol = Inr (Array sig)
    \<and> length sig = length theta
    \<and> (\<forall>i<length theta. sig ! i =
          engine E sky (beam_alm bI) (phi ! i, theta ! i, psi ! i)
        + cos (2 * psi_pol ! i) * engine E sky (beam_alm bQ) (phi ! i, theta ! i, psi ! i)
        + sin (2 * psi_pol ! i) * engine E sky (beam_alm bU) (phi ! i, theta ! i, psi ! i))"
proof (cases "theta = []")
  case True
  with assms show ?thesis
    by (simp add: weighted_convolve_def get_buffer_def convolve_def np_multiply_def np_iadd_def
        np_inplace_def)
next
  case False
  with assms show ?thesis
    by (simp add: weighted_convolve_def get_buffer_aligned convolve_def np_multiply_def np_iadd_def
        np_inplace_def Let_def)
qed

subsection \<open>Calibration\<close>

lemma calibrate_obs_no_views:
  assumes "det_views data det = []"
    and "list_all (\<lambda>ob. det \<in> set (local_detectors ob) \<longrightarrow> focalplane ob det \<noteq> None) data"
  shows "calibrate_obs E det data st = Inr st"
  using assms
proof (induction data)
  case Nil
  then show ?case by simp
next
  case (Cons ob obs)
  then show ?case
    by (auto simp: det_views_Cons get_epsilon_def split: if_splits option.splits)
qed

lemma calibrate_views_scaled:
  assumes "list_all (\<lambda>v. v_det_data v det \<noteq> None) vs"
    and "length mid = sum_list (map (nsample det) vs)" and "1 + eps \<noteq> 0"
  shows "calibrate_views det eps vs (length pre, Array (pre @ mid @ post))
       = Inr (length pre + length mid, Array (pre @ map (\<lambda>x. x * (2 / (1 + eps))) mid @ post))"
  using assms
proof (induction vs arbitrary: pre mid)
  case Nil
  then show ?case by simp
next
  case (Cons v vs)
  from Cons.prems(1) obtain seg where seg: "v_det_data v det = Some seg" by auto
  let ?n = "length seg"
  let ?f = "\<lambda>x. x * (2 / (1 + eps))"
  from seg have "nsample det v = ?n" by (simp add: nsample_def)
  with Cons.prems(2) have len: "length mid = ?n + sum_list (map (nsample det) vs)"
    by simp
  define m1 where "m1 = take ?n mid"
  define m2 where "m2 = drop ?n mid"
  have mid: "mid = m1 @ m2" and l1: "length m1 = ?n"
    and l2: "length m2 = sum_list (map (nsample det) vs)"
    using len by (simp_all add: m1_def m2_def)
  have step: "take (length pre) (pre @ mid @ post)
        @ map ?f (take ?n (drop (length pre) (pre @ mid @ post)))
        @ drop (length pre + ?n) (pre @ mid @ post)
      = (pre @ map ?f m1) @ m2 @ post"
    using l1 by (simp add: mid)
  have ih: "calibrate_views det eps vs (length (pre @ map ?f m1), Array ((pre @ map ?f m1) @ m2 @ post))
       = Inr (length (pre @ map ?f m1) + length m2, Array ((pre @ map ?f m1) @ map ?f m2 @ post))"
    using Cons.IH [of m2 "pre @ map ?f m1"] Cons.prems(1,3) l2 by simp
  have "calibrate_views det eps (v # vs) (length pre, Array (pre @ mid @ post))
      = calibrate_views det eps vs (length pre + ?n, Array ((pre @ map ?f m1) @ m2 @ post))"
    using seg Cons.prems(3) step by (simp add: Let_def)
  also have "\<dots> = Inr (length (pre @ map ?f m1) + length m2, Array ((pre @ map ?f m1) @ map ?f m2 @ post))"
    using ih l1 by simp
  finally show ?case using l1 by (simp add: mid)
qed

lemma concat_replicate_views:
  "concat (map (\<lambda>v. replicate (nsample det v) e) vs) = replicate (sum_list (map (nsample det) vs)) e"
  by (induction vs) (auto simp: replicate_add)

lemma epsilon_stream_Cons:
  "epsilon_stream E (ob # obs) det =
     (if det \<in> set (local_detectors ob)
      then replicate (sum_list (map (nsample det) (views ob)))
             (case get_epsilon E (focalplane ob) det of Inl e \<Rightarrow> 0 | Inr epsilon \<Rightarrow> epsilon)
      else [])
     @ epsilon_stream E obs det"
  by (simp add: epsilon_stream_def det_views_Cons comp_def concat_replicate_views)

lemma calibrate_obs_scaled:
  assumes "calibration_ready E data det" and "length mid = length (epsilon_stream E data det)"
  shows "calibrate_obs E det data (length pre, Array (pre @ mid @ post))
       = Inr (length pre + length mid,
              Array (pre @ map2 (\<lambda>x eps. x * (2 / (1 + eps))) mid (epsilon_stream E data det) @ post))"
  using assms
proof (induction data arbitrary: pre mid)
  case Nil
  then show ?case by (simp add: epsilon_stream_def det_views_def)
next
  case (Cons ob obs)
  from Cons.prems(1) have rest: "calibration_ready E obs det"
    by (simp add: calibration_ready_def)
  show ?case
  proof (cases "det \<in> set (local_detectors ob)")
    case False
    with Cons.prems(2) have "length mid = length (epsilon_stream E obs det)"
      by (simp add: epsilon_stream_Cons)
    from Cons.IH [OF rest this, of pre] False show ?thesis
      by (simp add: epsilon_stream_Cons)
  next
    case True
    with Cons.prems(1) obtain eps where eps: "get_epsilon E (focalplane ob) det = Inr eps"
      and nz: "1 + eps \<noteq> 0"
      and vs: "list_all (\<lambda>v. v_det_data v det \<noteq> None) (views ob)"
      by (auto simp: calibration_ready_def split: sum.splits)
    let ?n = "sum_list (map (nsample det) (views ob))"
    let ?f = "\<lambda>x. x * (2 / (1 + eps))"
    let ?g = "\<lambda>x eps. x * (2 / (1 + eps))"
    have es: "epsilon_stream E (ob # obs) det = replicate ?n eps @ epsilon_stream E obs det"
      using True eps by (simp add: epsilon_stream_Cons)
    define m1 where "m1 = take ?n mid"
    define m2 where "m2 = drop ?n mid"
    have mid: "mid = m1 @ m2" and l1: "length m1 = ?n"
      and l2: "length m2 = length (epsilon_stream E obs det)"
      using Cons.prems(2) es by (simp_all add: m1_def m2_def)
    have v: "calibrate_views det eps (views ob) (length pre, Array (pre @ m1 @ (m2 @ post)))
       = Inr (length pre + length m1, Array (pre @ map ?f m1 @ (m2 @ post)))"
      by (rule calibrate_views_scaled [OF vs l1 nz])
    have ih: "calibrate_obs E det obs (length (pre @ map ?f m1), Array ((pre @ map ?f m1) @ m2 @ post))
       = Inr (length (pre @ map ?f m1) + length m2,
              Array ((pre @ map ?f m1) @ map2 ?g m2 (epsilon_stream E obs det) @ post))"
      by (rule Cons.IH [OF rest l2])
    have "calibrate_obs E det (ob # obs) (length pre, Array (pre @ mid @ post))
        = calibrate_obs E det obs (length (pre @ map ?f m1), Array ((pre @ map ?f m1) @ m2 @ post))"
      using True eps v by (simp add: mid)
    also note ih
    finally have X: "calibrate_obs E det (ob # obs) (length pre, Array (pre @ mid @ post))
        = Inr (length (pre @ map ?f m1) + length m2,
              Array ((pre @ map ?f m1) @ map2 ?g m2 (epsilon_stream E obs det) @ post))" .
    have fin: "map2 ?g (m1 @ m2) (replicate ?n eps @ epsilon_stream E obs det)
        = map ?f m1 @ map2 ?g m2 (epsilon_stream E obs det)"
      by (rule map2_scale_replicate [OF l1])
    have "length (pre @ map ?f m1) + length m2 = length pre + length mid"
      by (simp add: mid)
    moreover have "(pre @ map ?f m1) @ map2 ?g m2 (epsilon_stream E obs det) @ post
        = pre @ map2 ?g mid (epsilon_stream E (ob # obs) det) @ post"
      unfolding es mid fin by simp
    ultimately show ?thesis using X by simp
  qed
qed

subsection \<open>Accumulation\<close>

lemma save_obs_no_views:
  assumes "det_views data det = []"
  shows "save_obs det buf data offset = Inr (offset, data)"
  using assms
proof (induction data)
  case Nil
  then show ?case by simp
next
  case (Cons ob obs)
  then show ?case
    by (auto simp: det_views_Cons split: if_splits)
qed

lemma save_views_append:
  "save_views det buf (vs1 @ vs2) offset =
     (case save_views det buf vs1 offset of
        Inl e \<Rightarrow> Inl e
      | Inr (offset1, vs1') \<Rightarrow>
          (case save_views det buf vs2 offset1 of
             Inl e \<Rightarrow> Inl e
           | Inr (offset2, vs2') \<Rightarrow> Inr (offset2, vs1' @ vs2')))"
  by (induction vs1 arbitrary: offset)
     (auto simp: Let_def split: sum.splits option.splits buffer.splits prod.splits)

lemma save_obs_flat:
  "(case save_obs det buf data offset of
      Inl e \<Rightarrow> save_views det buf (map snd (det_views data det)) offset = Inl e
    | Inr (offset', data') \<Rightarrow>
        save_views det buf (map snd (det_views data det)) offset
          = Inr (offset', map snd (det_views data' det)))"
proof (induction data arbitrary: offset)
  case Nil
  then show ?case by (simp add: det_views_def)
next
  case (Cons ob obs)
  show ?case
  proof (cases "det \<in> set (local_detectors ob)")
    case False
    with Cons [of offset] show ?thesis
      by (auto simp: det_views_Cons split: sum.splits prod.splits)
  next
    case True
    show ?thesis
    proof (cases "save_views det buf (views ob) offset")
      case (Inl e)
      with True show ?thesis
        by (simp add: det_views_Cons save_views_append comp_def)
    next
      case (Inr r)
      obtain offset1 vs' where r: "r = (offset1, vs')" by (cases r)
      with Inr True Cons [of offset1] show ?thesis
        by (auto simp: det_views_Cons save_views_append comp_def split: sum.splits prod.splits)
    qed
  qed
qed

lemma save_views_adds:
  assumes "map (\<lambda>v. v_det_data v det) vs = map Some segs"
    and "length mid = length (concat segs)"
  shows "\<exists>vs' segs'. save_views det (Array (pre @ mid @ post)) vs (length pre)
                      = Inr (length pre + length mid, vs')
     \<and> map (\<lambda>v. v_det_data v det) vs' = map Some segs'
     \<and> map length segs' = map length segs
     \<and> concat segs' = map2 (+) (concat segs) mid"
  using assms
proof (induction segs arbitrary: vs pre mid)
  case Nil
  then show ?case by simp
next
  case (Cons seg segs)
  from Cons.prems(1) obtain v vs0 where vs: "vs = v # vs0" and seg: "v_det_data v det = Some seg"
    and rest: "map (\<lambda>v. v_det_data v det) vs0 = map Some segs"
    by (cases vs) auto
  let ?n = "length seg"
  define m1 where "m1 = take ?n mid"
  define m2 where "m2 = drop ?n mid"
  have mid: "mid = m1 @ m2" and l1: "length m1 = ?n" and l2: "length m2 = length (concat segs)"
    using Cons.prems(2) by (simp_all add: m1_def m2_def)
  from Cons.IH [OF rest l2, of "pre @ m1"] obtain vs' segs' where
    ih: "save_views det (Array ((pre @ m1) @ m2 @ post)) vs0 (length (pre @ m1))
           = Inr (length (pre @ m1) + length m2, vs')"
    and s1: "map (\<lambda>v. v_det_data v det) vs' = map Some segs'"
    and s2: "map length segs' = map length segs"
    and s3: "concat segs' = map2 (+) (concat segs) m2"
    by blast
  have slice: "take ?n (drop (length pre) (pre @ mid @ post)) = m1"
    using l1 by (simp add: mid)
  have add: "np_inplace (+) seg m1 = Inr (map2 (+) seg m1)"
    using l1 by (simp add: np_inplace_def)
  have res: "save_views det (Array (pre @ mid @ post)) vs (length pre)
      = Inr (length pre + length mid, v\<lparr>v_det_data := (v_det_data v)(det \<mapsto> map2 (+) seg m1)\<rparr> # vs')"
  proof -
    have ih': "save_views det (Array (pre @ mid @ post)) vs0 (length pre + ?n)
        = Inr (length pre + length mid, vs')"
      using ih l1 by (simp add: mid)
    show ?thesis
      by (simp only: vs save_views.simps seg option.case Let_def buffer.case slice add sum.case
          ih' prod.case)
  qed
  have c: "concat (map2 (+) seg m1 # segs') = map2 (+) (concat (seg # segs)) mid"
    using l1 s3 by (simp add: mid)
  have l: "map length (map2 (+) seg m1 # segs') = map length (seg # segs)"
    using l1 s2 by simp
  have m: "map (\<lambda>v. v_det_data v det) (v\<lparr>v_det_data := (v_det_data v)(det \<mapsto> map2 (+) seg m1)\<rparr> # vs')
      = map Some (map2 (+) seg m1 # segs')"
    using s1 by simp
  show ?case
    by (rule exI [of _ "v\<lparr>v_det_data := (v_det_data v)(det \<mapsto> map2 (+) seg m1)\<rparr> # vs'"],
        rule exI [of _ "map2 (+) seg m1 # segs'"], intro conjI, rule res, rule m, rule l, rule c)
qed

lemma det_signals_flat:
  "det_signals data det = map (\<lambda>v. v_det_data v det) (map snd (det_views data det))"
  by (simp add: det_signals_def comp_def case_prod_unfold)

lemma save_views_exhausted:
  assumes "map (\<lambda>v. v_det_data v det) vs = map Some segs" and "length buf \<le> offset"
  shows "if concat segs = [] then \<exists>vs'. save_views det (Array buf) vs offset = Inr (offset, vs')
         else save_views det (Array buf) vs offset = Inl ValueError"
  using assms
proof (induction segs arbitrary: vs)
  case Nil
  then show ?case by simp
next
  case (Cons seg segs)
  from Cons.prems(1) obtain v vs0 where vs: "vs = v # vs0" and seg: "v_det_data v det = Some seg"
    and rest: "map (\<lambda>v. v_det_data v det) vs0 = map Some segs"
    by (cases vs) auto
  have slice: "take (length seg) (drop offset buf) = []"
    using Cons.prems(2) by simp
  show ?case
  proof (cases "seg = []")
    case True
    with Cons.IH [OF rest Cons.prems(2)] show ?thesis
      by (auto simp: vs seg np_inplace_def split: if_splits)
  next
    case False
    then have "np_inplace (+) seg [] = Inl ValueError"
      by (simp add: np_inplace_def)
    with False show ?thesis
      by (simp add: vs seg slice)
  qed
qed

lemma nonempty_filter_concat: "filter (\<lambda>s. s \<noteq> []) segs = [] \<longleftrightarrow> concat segs = []"
  by (induction segs) auto

lemma last_run_Cons:
  "last_run (seg # segs) = (if concat segs = [] then length seg else last_run segs)"
proof (cases "concat segs = []")
  case True
  then have "filter (\<lambda>s. s \<noteq> []) segs = []" by (simp add: nonempty_filter_concat)
  then show ?thesis using True by (simp add: last_run_def)
next
  case False
  then have "filter (\<lambda>s. s \<noteq> []) segs \<noteq> []" by (simp add: nonempty_filter_concat)
  then obtain s ss where "filter (\<lambda>s. s \<noteq> []) segs = s # ss"
    by (cases "filter (\<lambda>s. s \<noteq> []) segs") auto
  then show ?thesis using False by (auto simp: last_run_def)
qed

lemma last_run_le: "last_run segs \<le> length (concat segs)"
proof (induction segs)
  case Nil
  then show ?case by (simp add: last_run_def)
next
  case (Cons seg segs)
  then show ?case by (simp add: last_run_Cons)
qed

lemma save_views_shortfall:
  assumes "map (\<lambda>v. v_det_data v det) vs = map Some segs"
    and "offset \<le> length buf" and "length buf < offset + length (concat segs)"
  shows "if length buf + last_run segs = offset + length (concat segs) + 1
         then \<exists>r. save_views det (Array buf) vs offset = Inr r
         else save_views det (Array buf) vs offset = Inl ValueError"
  using assms
proof (induction segs arbitrary: vs offset)
  case Nil
  then show ?case by simp
next
  case (Cons seg segs)
  from Cons.prems(1) obtain v vs0 where vs: "vs = v # vs0" and seg: "v_det_data v det = Some seg"
    and rest: "map (\<lambda>v. v_det_data v det) vs0 = map Some segs"
    by (cases vs) auto
  let ?n = "length seg"
  let ?c = "length (concat segs)"
  let ?L = "length buf"
  define sl where "sl = take ?n (drop offset buf)"
  have lsl: "length sl = min ?n (?L - offset)" by (simp add: sl_def)
  have unfold: "save_views det (Array buf) vs offset =
     (case np_inplace (+) seg sl of
        Inl e \<Rightarrow> Inl e
      | Inr seg' \<Rightarrow>
          (case save_views det (Array buf) vs0 (offset + ?n) of
             Inl e \<Rightarrow> Inl e
           | Inr (offset', vs') \<Rightarrow>
               Inr (offset', v\<lparr>v_det_data := (v_det_data v)(det \<mapsto> seg')\<rparr> # vs')))"
    by (simp only: vs save_views.simps seg option.case Let_def buffer.case sl_def)
  consider (fits) "offset + ?n \<le> ?L" | (one) "?L < offset + ?n" "?L = offset + 1"
    | (bad) "?L < offset + ?n" "?L \<noteq> offset + 1"
    by linarith
  then show ?case
  proof cases
    case fits
    then have "length sl = ?n" by (simp add: lsl)
    then have add: "np_inplace (+) seg sl = Inr (map2 (+) seg sl)"
      by (simp add: np_inplace_def)
    from Cons.prems(3) have lt: "?L < (offset + ?n) + ?c"
      by simp
    with fits have "0 < ?c"
      by linarith
    then have c: "concat segs \<noteq> []"
      by (cases "concat segs") simp_all
    from Cons.IH [OF rest fits lt] c show ?thesis
      unfolding unfold add sum.case last_run_Cons
      by (auto split: sum.splits prod.splits)
  next
    case one
    then have l1: "length sl = 1" and n2: "2 \<le> ?n" by (auto simp: lsl)
    then have add: "np_inplace (+) seg sl = Inr (map (\<lambda>x. x + hd sl) seg)"
      by (simp add: np_inplace_def)
    from one have ex: "?L \<le> offset + ?n" by simp
    from save_views_exhausted [OF rest ex] one n2 last_run_le [of segs] show ?thesis
      unfolding unfold add sum.case last_run_Cons
      by (auto split: sum.splits prod.splits if_splits)
  next
    case bad
    with Cons.prems(2) have "length sl \<noteq> ?n" "length sl \<noteq> 1" by (auto simp: lsl)
    then have add: "np_inplace (+) seg sl = Inl ValueError"
      by (simp add: np_inplace_def)
    from bad Cons.prems(2) last_run_le [of segs] show ?thesis
      unfolding unfold add sum.case last_run_Cons
      by (auto split: if_splits)
  qed
qed

lemma demo_det_signals: "det_signals [demo_obs props] ''d'' = map Some [[0, 0]]"
  by (simp add: det_signals_def det_views_def demo_obs_def demo_view_def)

subsection \<open>The detectors of all processes\<close>

lemma fold_union: "fold (\<lambda>some_dets acc. acc \<union> some_dets) xs a = a \<union> \<Union> (set xs)"
  by (induction xs arbitrary: a) auto

lemma my_dets_union: "my_dets sel p = (\<Union>ob\<in>set p. set (sel ob))"
  by (simp add: my_dets_def)

section \<open>Properties\<close>

subsection \<open>Weighted recombination\<close>

text \<open>
  Claim C1. For the four arrays that \<^verbatim>\<open>get_pointing\<close> returns, the combination of
  the three convolutions is an array with one value per pointing sample, and the value
  at sample \<open>i\<close> is the I convolution plus \<open>cos (2 psi_pol[i])\<close> times the Q convolution
  plus \<open>sin (2 psi_pol[i])\<close> times the U convolution, all three taken at the same
  pointing row. When the engine returns 1 everywhere, the value is 2 at
  \<open>psi_pol[i] = 0\<close> and 2 at \<open>psi_pol[i] = pi / 4\<close>. Samples are real numbers here.
\<close>

theorem weighted_recombination:
  assumes "get_pointing E cfg data det = Inr (theta, phi, psi, psi_pol)"
  shows "\<exists>sig. weighted_convolve E sky bI bQ bU theta phi psi psi_pol = Inr (Array sig)
    \<and> length sig = length theta
    \<and> (\<forall>i<length theta. sig ! i =
          engine E sky (beam_alm bI) (phi ! i, theta ! i, psi ! i)
        + cos (2 * psi_pol ! i) * engine E sky (beam_alm bQ) (phi ! i, theta ! i, psi ! i)
        + sin (2 * psi_pol ! i) * engine E sky (beam_alm bU) (phi ! i, theta ! i, psi ! i))
    \<and> (\<forall>i<length theta. (\<forall>b p. engine E sky b p = 1) \<longrightarrow>
          (psi_pol ! i = 0 \<longrightarrow> sig ! i = 2) \<and> (psi_pol ! i = pi / 4 \<longrightarrow> sig ! i = 2))"
proof -
  from get_pointing_lengths [OF assms]
  have len: "length phi = length theta" "length psi = length theta" "length psi_pol = length theta"
    by simp_all
  from weighted_convolve_aligned [OF len, of E sky bI bQ bU] obtain sig where
    s: "weighted_convolve E sky bI bQ bU theta phi psi psi_pol = Inr (Array sig)"
       "length sig = length theta"
       "\<forall>i<length theta. sig ! i =
          engine E sky (beam_alm bI) (phi ! i, theta ! i, psi ! i)
        + cos (2 * psi_pol ! i) * engine E sky (beam_alm bQ) (phi ! i, theta ! i, psi ! i)
        + sin (2 * psi_pol ! i) * engine E sky (beam_alm bU) (phi ! i, theta ! i, psi ! i)"
    by blast
  have "(\<forall>i<length theta. (\<forall>b p. engine E sky b p = 1) \<longrightarrow>
          (psi_pol ! i = 0 \<longrightarrow> sig ! i = 2) \<and> (psi_pol ! i = pi / 4 \<longrightarrow> sig ! i = 2))"
  proof (intro allI impI conjI)
    fix i assume i: "i < length theta" and one: "\<forall>b p. engine E sky b p = 1"
    { assume "psi_pol ! i = 0"
      with s(3) i one show "sig ! i = 2" by simp }
    { assume q: "psi_pol ! i = pi / 4"
      have "2 * (pi / 4) = pi / 2" by simp
      then have "2 * psi_pol ! i = pi / 2" by (simp only: q)
      then have "cos (2 * psi_pol ! i) = 0" "sin (2 * psi_pol ! i) = 1"
        by (simp_all only: cos_pi_half sin_pi_half)
      with s(3) i one show "sig ! i = 2" by simp }
  qed
  with s show ?thesis by blast
qed

theorem weighted_recombination_witness:
  "get_pointing demo_env demo_cfg [demo_obs [''pol_angle'' \<mapsto> 0]] ''d''
     = Inr ([1, 0], [2, 0], [3, 0], [0, pi / 4])
   \<and> weighted_convolve demo_env () demo_beam demo_beam demo_beam [1, 0] [2, 0] [3, 0] [0, pi / 4]
     = Inr (Array [2, 2])"
proof -
  have h: "get_pointing demo_env demo_cfg [demo_obs [''pol_angle'' \<mapsto> 0]] ''d''
     = Inr ([1, 0], [2, 0], [3, 0], [0, pi / 4])"
    using demo_get_pointing [of 0] by simp
  from weighted_recombination [OF h, of "()" demo_beam demo_beam demo_beam]
  obtain sig where s:
    "weighted_convolve demo_env () demo_beam demo_beam demo_beam [1, 0] [2, 0] [3, 0] [0, pi / 4]
       = Inr (Array sig)"
    "length sig = 2"
    "\<forall>i<2. (\<forall>b p. engine demo_env () b p = 1) \<longrightarrow>
          ([0, pi / 4 :: real] ! i = 0 \<longrightarrow> sig ! i = 2)
        \<and> ([0, pi / 4 :: real] ! i = pi / 4 \<longrightarrow> sig ! i = 2)"
    by auto
  have e: "\<forall>b p. engine demo_env () b p = 1" by (simp add: demo_env_def)
  from s(3) e have "sig ! 0 = 2" "sig ! 1 = 2" by auto
  with s(2) have "sig = [2, 2]"
    by (cases sig; cases "tl sig"; cases "tl (tl sig)") auto
  with s(1) h show ?thesis by simp
qed

subsection \<open>Calibration normalizer\<close>

text \<open>
  Claim C2. With calibration disabled or a normalized beam, \<^verbatim>\<open>calibrate_signal\<close>
  returns the buffer as it is, whatever the data and the leakage. Otherwise, for a buffer
  with one sample per sample of the detector's views, every sample is multiplied by
  \<open>2 / (1 + epsilon)\<close>, \<open>epsilon\<close> being the leakage in the focal plane of the sample's
  observation: with one leakage for all observations that is \<open>2 / (1 + epsilon)\<close> for the
  whole buffer, and exactly 2 when the leakage is 0. The leakage is the \<^verbatim>\<open>pol_leakage\<close>
  entry of the detector's row, and 0 when the row has none.
\<close>

theorem calibration:
  "(\<not> calibrate cfg \<or> normalized bm \<longrightarrow> calibrate_signal E cfg data det bm buf = Inr buf)
   \<and> (calibrate cfg \<and> \<not> normalized bm \<and> calibration_ready E data det
        \<and> length xs = length (epsilon_stream E data det) \<longrightarrow>
          calibrate_signal E cfg data det bm (Array xs)
            = Inr (Array (map2 (\<lambda>x eps. x * (2 / (1 + eps))) xs (epsilon_stream E data det)))
        \<and> (set (epsilon_stream E data det) \<subseteq> {epsilon} \<longrightarrow>
             calibrate_signal E cfg data det bm (Array xs)
               = Inr (Array (map (\<lambda>x. x * (2 / (1 + epsilon))) xs)))
        \<and> (set (epsilon_stream E data det) \<subseteq> {0} \<longrightarrow>
             calibrate_signal E cfg data det bm (Array xs) = Inr (Array (map (\<lambda>x. x * 2) xs))))
   \<and> (fp det = Some props \<longrightarrow>
        get_epsilon E fp det
          = Inr (case props ''pol_leakage'' of None \<Rightarrow> 0 | Some c \<Rightarrow> as_number E c))"
proof (intro conjI impI)
  assume "\<not> calibrate cfg \<or> normalized bm"
  then show "calibrate_signal E cfg data det bm buf = Inr buf"
    by (auto simp: calibrate_signal_def)
next
  assume "fp det = Some props"
  then show "get_epsilon E fp det
          = Inr (case props ''pol_leakage'' of None \<Rightarrow> 0 | Some c \<Rightarrow> as_number E c)"
    by (simp add: get_epsilon_def split: option.splits)
next
  assume a: "calibrate cfg \<and> \<not> normalized bm \<and> calibration_ready E data det
        \<and> length xs = length (epsilon_stream E data det)"
  then have r: "calibration_ready E data det" and l: "length xs = length (epsilon_stream E data det)"
    by simp_all
  from calibrate_obs_scaled [OF r l, of "[]" "[]"] a
  show main: "calibrate_signal E cfg data det bm (Array xs)
            = Inr (Array (map2 (\<lambda>x eps. x * (2 / (1 + eps))) xs (epsilon_stream E data det)))"
    by (simp add: calibrate_signal_def)
  { assume c: "set (epsilon_stream E data det) \<subseteq> {epsilon}"
    from map2_const_stream [OF c l, of "\<lambda>x eps. x * (2 / (1 + eps))"] main
    show "calibrate_signal E cfg data det bm (Array xs)
               = Inr (Array (map (\<lambda>x. x * (2 / (1 + epsilon))) xs))"
      by simp }
  { assume c: "set (epsilon_stream E data det) \<subseteq> {0}"
    from map2_const_stream [OF c l, of "\<lambda>x eps. x * (2 / (1 + eps))"] main
    show "calibrate_signal E cfg data det bm (Array xs) = Inr (Array (map (\<lambda>x. x * 2) xs))"
      by simp }
qed

theorem calibration_witness:
  "calibrate_signal demo_env demo_cfg [demo_obs [''pol_leakage'' \<mapsto> 3]] ''d'' demo_beam (Array [4, 6])
     = Inr (Array [2, 3])
   \<and> calibrate_signal demo_env demo_cfg [demo_obs Map.empty] ''d'' demo_beam (Array [4, 6])
     = Inr (Array [8, 12])
   \<and> calibrate_signal demo_env demo_cfg [demo_obs [''pol_leakage'' \<mapsto> 3]] ''d''
       (demo_beam\<lparr>normalized := True\<rparr>) (Array [4, 6])
     = Inr (Array [4, 6])"
proof -
  have c: "calibrate demo_cfg" "\<not> normalized demo_beam"
    by (simp_all add: demo_cfg_def demo_beam_def)
  have e3: "epsilon_stream demo_env [demo_obs [''pol_leakage'' \<mapsto> 3]] ''d'' = [3, 3]"
    by (simp add: epsilon_stream_def det_views_def demo_obs_def demo_view_def nsample_def
        get_epsilon_def demo_env_def)
  have e0: "epsilon_stream demo_env [demo_obs Map.empty] ''d'' = [0, 0]"
    by (simp add: epsilon_stream_def det_views_def demo_obs_def demo_view_def nsample_def
        get_epsilon_def demo_env_def)
  have r3: "calibration_ready demo_env [demo_obs [''pol_leakage'' \<mapsto> 3]] ''d''"
    by (simp add: calibration_ready_def demo_obs_def demo_view_def get_epsilon_def demo_env_def)
  have r0: "calibration_ready demo_env [demo_obs Map.empty] ''d''"
    by (simp add: calibration_ready_def demo_obs_def demo_view_def get_epsilon_def demo_env_def)
  from calibration [of demo_cfg demo_beam demo_env "[demo_obs [''pol_leakage'' \<mapsto> 3]]" "''d''"
      "Array [4, 6]" "[4, 6]" 3] c r3 e3
  have a: "calibrate_signal demo_env demo_cfg [demo_obs [''pol_leakage'' \<mapsto> 3]] ''d'' demo_beam (Array [4, 6])
     = Inr (Array [2, 3])"
    by simp
  from calibration [of demo_cfg demo_beam demo_env "[demo_obs Map.empty]" "''d''"
      "Array [4, 6]" "[4, 6]" 0] c r0 e0
  have b: "calibrate_signal demo_env demo_cfg [demo_obs Map.empty] ''d'' demo_beam (Array [4, 6])
     = Inr (Array [8, 12])"
    by simp
  from calibration [of demo_cfg "demo_beam\<lparr>normalized := True\<rparr>" demo_env
      "[demo_obs [''pol_leakage'' \<mapsto> 3]]" "''d''" "Array [4, 6]"]
  have d: "calibrate_signal demo_env demo_cfg [demo_obs [''pol_leakage'' \<mapsto> 3]] ''d''
       (demo_beam\<lparr>normalized := True\<rparr>) (Array [4, 6]) = Inr (Array [4, 6])"
    by simp
  from a b d show ?thesis by simp
qed

subsection \<open>The basis offset\<close>

text \<open>
  Claim C3. With \<open>dxx\<close> unset the effective polarization angle is the detector's
  \<open>psi_pol\<close>. With \<open>dxx\<close> set the claim asks for \<open>psi_pol + psi_uv\<close>, but
  \<^verbatim>\<open>_get_psi_uv\<close> never returns: for every focal plane and detector it raises, so no
  effective angle is computed and \<^verbatim>\<open>get_pointing\<close> raises on the first view. On a
  row that has the columns \<^verbatim>\<open>pol_angle\<close>, \<^verbatim>\<open>psi_uv\<close> and \<^verbatim>\<open>psi_uv_deg\<close> the
  exception is the \<^verbatim>\<open>NameError\<close> of \<^verbatim>\<open>return psipol\<close>.
\<close>

theorem dxx_offset_raises:
  "effective_psi_pol E (cfg\<lparr>dxx := False\<rparr>) fp det = get_psi_pol E fp det
   \<and> effective_psi_pol E (cfg\<lparr>dxx := True\<rparr>) fp det \<noteq> Inr x
   \<and> get_pointing demo_env (demo_cfg\<lparr>dxx := True\<rparr>)
        [demo_obs [''pol_angle'' \<mapsto> 0, ''psi_uv'' \<mapsto> 1, ''psi_uv_deg'' \<mapsto> 1]] ''d''
       = Inl NameError"
proof -
  have "effective_psi_pol E (cfg\<lparr>dxx := False\<rparr>) fp det = get_psi_pol E fp det"
    by (simp add: effective_psi_pol_def split: sum.splits)
  moreover have "effective_psi_pol E (cfg\<lparr>dxx := True\<rparr>) fp det \<noteq> Inr x"
    by (simp add: effective_psi_pol_def get_psi_uv_raises split: sum.splits)
  moreover have "get_pointing demo_env (demo_cfg\<lparr>dxx := True\<rparr>)
        [demo_obs [''pol_angle'' \<mapsto> 0, ''psi_uv'' \<mapsto> 1, ''psi_uv_deg'' \<mapsto> 1]] ''d''
       = Inl NameError"
    by (simp add: get_pointing_def det_views_def demo_obs_def view_pointing_def get_flags_def
        effective_psi_pol_def get_psi_pol_def get_psi_uv_def demo_view_def demo_cfg_def
        demo_env_def null_flagged_def nullquat_def np_inplace_def)
  ultimately show ?thesis by blast
qed

subsection \<open>Flagged samples\<close>

text \<open>
  Claim C4, amended. With flags applied, whichever of the two flag streams are
  configured, the arrays that \<^verbatim>\<open>get_pointing\<close> returns have one entry per quaternion
  sample, flagged or not. View by view: where the combined mask
  \<open>(shared AND shared_flag_mask) OR (det AND det_flag_mask)\<close> of a sample is not zero (a
  stream that is not configured contributing no bit), \<open>theta\<close> and \<open>phi\<close> are those of
  the null quaternion \<open>(0, 0, 0, 1)\<close> and \<open>psi\<close> is that of the null quaternion minus
  the effective polarization angle, whatever the sample's own quaternion; elsewhere they
  are those of the sample's own quaternion, \<open>psi\<close> again minus the effective polarization
  angle. A configured detector stream is present in every view.
\<close>

theorem flagged_samples_nulled:
  assumes gp: "get_pointing E cfg data det = Inr (theta, phi, psi, psi_pol)"
    and cfg: "apply_flags cfg"
  shows "length theta = length (quat_stream data det)
    \<and> length phi = length (quat_stream data det)
    \<and> length psi = length (quat_stream data det)
    \<and> (\<exists>rs :: (real list \<times> real list \<times> real list \<times> real list) list.
          theta = concat (map (\<lambda>(th, ph, ps, pp). th) rs)
        \<and> phi = concat (map (\<lambda>(th, ph, ps, pp). ph) rs)
        \<and> psi = concat (map (\<lambda>(th, ph, ps, pp). ps) rs)
        \<and> list_all2 (\<lambda>(fp, v) (th, ph, ps, pp).
             \<exists>quats eff. v_quats v det = Some quats
              \<and> (det_flags cfg \<noteq> None \<longrightarrow> v_det_flags v det \<noteq> None)
              \<and> effective_psi_pol E cfg fp det = Inr eff
              \<and> length th = length quats \<and> length ph = length quats \<and> length ps = length quats
              \<and> (flags_aligned cfg v det \<longrightarrow>
                   (\<forall>i<length quats.
                      (if flag_mask cfg v det i \<noteq> 0
                       then th ! i = fst (to_angles E nullquat)
                          \<and> ph ! i = fst (snd (to_angles E nullquat))
                          \<and> ps ! i = snd (snd (to_angles E nullquat)) - eff
                       else th ! i = fst (to_angles E (quats ! i))
                          \<and> ph ! i = fst (snd (to_angles E (quats ! i)))
                          \<and> ps ! i = snd (snd (to_angles E (quats ! i))) - eff))))
            (det_views data det) rs)"
proof -
  from get_pointing_InrD [OF gp] obtain rs where
    rs: "list_all2 (\<lambda>(fp, v) r. view_pointing E cfg fp det v = Inr r) (det_views data det) rs"
    and th: "theta = concat (map (\<lambda>(th, ph, ps, pp). th) rs)"
    and ph: "phi = concat (map (\<lambda>(th, ph, ps, pp). ph) rs)"
    and ps: "psi = concat (map (\<lambda>(th, ph, ps, pp). ps) rs)"
    by blast
  have l2: "list_all2 (\<lambda>(fp, v) (th, ph, ps, pp).
             \<exists>quats eff. v_quats v det = Some quats
              \<and> (det_flags cfg \<noteq> None \<longrightarrow> v_det_flags v det \<noteq> None)
              \<and> effective_psi_pol E cfg fp det = Inr eff
              \<and> length th = length quats \<and> length ph = length quats \<and> length ps = length quats
              \<and> (flags_aligned cfg v det \<longrightarrow>
                   (\<forall>i<length quats.
                      (if flag_mask cfg v det i \<noteq> 0
                       then th ! i = fst (to_angles E nullquat)
                          \<and> ph ! i = fst (snd (to_angles E nullquat))
                          \<and> ps ! i = snd (snd (to_angles E nullquat)) - eff
                       else th ! i = fst (to_angles E (quats ! i))
                          \<and> ph ! i = fst (snd (to_angles E (quats ! i)))
                          \<and> ps ! i = snd (snd (to_angles E (quats ! i))) - eff))))
            (det_views data det) rs"
    using rs
  proof (rule list_all2_mono)
    fix x r assume "(case x of (fp, v) \<Rightarrow> \<lambda>r. view_pointing E cfg fp det v = Inr r) r"
    then show "(case x of (fp, v) \<Rightarrow> \<lambda>(th, ph, ps, pp).
             \<exists>quats eff. v_quats v det = Some quats
              \<and> (det_flags cfg \<noteq> None \<longrightarrow> v_det_flags v det \<noteq> None)
              \<and> effective_psi_pol E cfg fp det = Inr eff
              \<and> length th = length quats \<and> length ph = length quats \<and> length ps = length quats
              \<and> (flags_aligned cfg v det \<longrightarrow>
                   (\<forall>i<length quats.
                      (if flag_mask cfg v det i \<noteq> 0
                       then th ! i = fst (to_angles E nullquat)
                          \<and> ph ! i = fst (snd (to_angles E nullquat))
                          \<and> ps ! i = snd (snd (to_angles E nullquat)) - eff
                       else th ! i = fst (to_angles E (quats ! i))
                          \<and> ph ! i = fst (snd (to_angles E (quats ! i)))
                          \<and> ps ! i = snd (snd (to_angles E (quats ! i))) - eff)))) r"
      using view_pointing_masked [OF _ cfg, of E _ det]
      by (cases x; cases r) simp
  qed
  have q1: "list_all2 (\<lambda>(fp, v) r. \<exists>quats. v_quats v det = Some quats
               \<and> length ((\<lambda>(th, ph, ps, pp). th) r) = length quats) (det_views data det) rs"
    using l2 by (rule list_all2_mono) auto
  have q2: "list_all2 (\<lambda>(fp, v) r. \<exists>quats. v_quats v det = Some quats
               \<and> length ((\<lambda>(th, ph, ps, pp). ph) r) = length quats) (det_views data det) rs"
    using l2 by (rule list_all2_mono) auto
  have q3: "list_all2 (\<lambda>(fp, v) r. \<exists>quats. v_quats v det = Some quats
               \<and> length ((\<lambda>(th, ph, ps, pp). ps) r) = length quats) (det_views data det) rs"
    using l2 by (rule list_all2_mono) auto
  have n1: "length theta = length (quat_stream data det)"
    unfolding th quat_stream_def by (rule concat_lengths_views [OF q1])
  have n2: "length phi = length (quat_stream data det)"
    unfolding ph quat_stream_def by (rule concat_lengths_views [OF q2])
  have n3: "length psi = length (quat_stream data det)"
    unfolding ps quat_stream_def by (rule concat_lengths_views [OF q3])
  show ?thesis
    by (rule conjI [OF n1], rule conjI [OF n2], rule conjI [OF n3], rule exI [of _ rs],
        rule conjI [OF th], rule conjI [OF ph], rule conjI [OF ps], rule l2)
qed

theorem flagged_samples_nulled_witness:
  "get_pointing demo_env demo_cfg [demo_obs [''pol_angle'' \<mapsto> 1]] ''d''
     = Inr ([1, 0], [2, 0], [2, - 1], [1, 1 + pi / 4])
   \<and> get_pointing demo_env (demo_cfg\<lparr>det_flags := None\<rparr>) [demo_obs [''pol_angle'' \<mapsto> 1]] ''d''
     = Inr ([1, 0], [2, 0], [2, - 1], [1, 1 + pi / 4])
   \<and> get_pointing demo_env (demo_cfg\<lparr>shared_flags := None\<rparr>) [demo_obs [''pol_angle'' \<mapsto> 1]] ''d''
     = Inr ([1, 5], [2, 6], [2, 6], [1, 1 + pi / 4])
   \<and> length [1, 0 :: real] = length (quat_stream [demo_obs [''pol_angle'' \<mapsto> 1]] ''d'')
   \<and> length [1, 5 :: real] = length (quat_stream [demo_obs [''pol_angle'' \<mapsto> 1]] ''d'')
   \<and> quat_stream [demo_obs [''pol_angle'' \<mapsto> 1]] ''d'' = [(1, 2, 3, 4), (5, 6, 7, 8)]
   \<and> flag_mask demo_cfg demo_view ''d'' 1 = 1
   \<and> flag_mask (demo_cfg\<lparr>det_flags := None\<rparr>) demo_view ''d'' 1 = 1
   \<and> flag_mask (demo_cfg\<lparr>shared_flags := None\<rparr>) demo_view ''d'' 1 = 0"
proof -
  have h: "get_pointing demo_env demo_cfg [demo_obs [''pol_angle'' \<mapsto> 1]] ''d''
     = Inr ([1, 0], [2, 0], [2, - 1], [1, 1 + pi / 4])"
    using demo_get_pointing [of 1] by simp
  have h1: "get_pointing demo_env (demo_cfg\<lparr>det_flags := None\<rparr>) [demo_obs [''pol_angle'' \<mapsto> 1]] ''d''
     = Inr ([1, 0], [2, 0], [2, - 1], [1, 1 + pi / 4])"
    by (simp add: get_pointing_def det_views_def demo_obs_def view_pointing_def get_flags_def
        effective_psi_pol_def get_psi_pol_def demo_view_def demo_cfg_def demo_env_def
        null_flagged_def nullquat_def np_inplace_def)
  have h2: "get_pointing demo_env (demo_cfg\<lparr>shared_flags := None\<rparr>) [demo_obs [''pol_angle'' \<mapsto> 1]] ''d''
     = Inr ([1, 5], [2, 6], [2, 6], [1, 1 + pi / 4])"
    by (simp add: get_pointing_def det_views_def demo_obs_def view_pointing_def get_flags_def
        effective_psi_pol_def get_psi_pol_def demo_view_def demo_cfg_def demo_env_def
        null_flagged_def nullquat_def np_inplace_def)
  have c: "apply_flags demo_cfg" "apply_flags (demo_cfg\<lparr>det_flags := None\<rparr>)"
    "apply_flags (demo_cfg\<lparr>shared_flags := None\<rparr>)"
    by (simp_all add: demo_cfg_def)
  have q: "quat_stream [demo_obs [''pol_angle'' \<mapsto> 1]] ''d'' = [(1, 2, 3, 4), (5, 6, 7, 8)]"
    by (simp add: quat_stream_def det_views_def demo_obs_def demo_view_def)
  have m: "flag_mask demo_cfg demo_view ''d'' 1 = 1"
    "flag_mask (demo_cfg\<lparr>det_flags := None\<rparr>) demo_view ''d'' 1 = 1"
    "flag_mask (demo_cfg\<lparr>shared_flags := None\<rparr>) demo_view ''d'' 1 = 0"
    by (simp_all add: flag_mask_def demo_cfg_def demo_view_def)
  from flagged_samples_nulled [OF h c(1)]
  have l: "length [1, 0 :: real] = length (quat_stream [demo_obs [''pol_angle'' \<mapsto> 1]] ''d'')"
    by (rule conjunct1)
  from flagged_samples_nulled [OF h1 c(2)]
  have l1: "length [1, 0 :: real] = length (quat_stream [demo_obs [''pol_angle'' \<mapsto> 1]] ''d'')"
    by (rule conjunct1)
  from flagged_samples_nulled [OF h2 c(3)]
  have l2: "length [1, 5 :: real] = length (quat_stream [demo_obs [''pol_angle'' \<mapsto> 1]] ''d'')"
    by (rule conjunct1)
  from h h1 h2 l l1 l2 q m show ?thesis by simp
qed

text \<open>
  Claim C4 as stated fails for \<open>psi\<close>: the polarization angle is subtracted from every
  sample after the conversion, the flagged ones included. In the data set, with
  \<open>pol_angle = 1\<close>, the second sample is flagged and its \<open>psi\<close> is \<open>- 1\<close>, while the null
  quaternion converts to \<open>psi = 0\<close>. The same holds for any conversion: the returned
  \<open>psi\<close> differs from the converted one by the polarization angle.
\<close>

theorem flagged_psi_counterexample:
  "get_pointing demo_env demo_cfg [demo_obs [''pol_angle'' \<mapsto> 1]] ''d''
     = Inr ([1, 0], [2, 0], [2, - 1], [1, 1 + pi / 4])
   \<and> (v_shared_flags demo_view ! 1 AND shared_flag_mask demo_cfg)
       OR ([0, 0] ! 1 AND det_flag_mask demo_cfg) = 1
   \<and> to_angles demo_env nullquat = (0, 0, 0)
   \<and> [2, - 1 :: real] ! 1 \<noteq> snd (snd (to_angles demo_env nullquat))"
proof -
  have h: "get_pointing demo_env demo_cfg [demo_obs [''pol_angle'' \<mapsto> 1]] ''d''
     = Inr ([1, 0], [2, 0], [2, - 1], [1, 1 + pi / 4])"
    using demo_get_pointing [of 1] by simp
  then show ?thesis
    by (simp add: demo_view_def demo_cfg_def demo_env_def nullquat_def)
qed

subsection \<open>Accumulation by addition\<close>

text \<open>
  Claim C5. For a buffer with one sample per sample of the detector's views, \<^verbatim>\<open>save\<close>
  completes, every view keeps its number of samples, and the views read back in the
  order of the traversal hold what they held plus the buffer, sample by sample: each
  view receives the contiguous run of the buffer at the offset of the views before it.
  Over storage that held zeros the views read back are the buffer.
\<close>

theorem save_round_trip:
  assumes "det_signals data det = map Some segs" and "length buf = length (concat segs)"
  shows "\<exists>data' segs'. save data det (Array buf) = Inr data'
     \<and> det_signals data' det = map Some segs'
     \<and> map length segs' = map length segs
     \<and> concat segs' = map2 (+) (concat segs) buf
     \<and> (concat segs = replicate (length buf) 0 \<longrightarrow> concat segs' = buf)"
proof -
  from assms(1) have f: "map (\<lambda>v. v_det_data v det) (map snd (det_views data det)) = map Some segs"
    by (simp add: det_signals_flat)
  from save_views_adds [OF f assms(2), of "[]" "[]"] obtain vs' segs' where
    sv: "save_views det (Array buf) (map snd (det_views data det)) 0 = Inr (length buf, vs')"
    and s1: "map (\<lambda>v. v_det_data v det) vs' = map Some segs'"
    and s2: "map length segs' = map length segs"
    and s3: "concat segs' = map2 (+) (concat segs) buf"
    by auto
  from save_obs_flat [of det "Array buf" data 0] sv obtain data' where
    so: "save_obs det (Array buf) data 0 = Inr (length buf, data')"
    and fl: "map snd (det_views data' det) = vs'"
    by (auto split: sum.splits prod.splits)
  have a: "save data det (Array buf) = Inr data'"
    using so by (simp add: save_def)
  have b: "det_signals data' det = map Some segs'"
    using s1 fl by (simp add: det_signals_flat)
  have z: "concat segs = replicate (length buf) 0 \<longrightarrow> concat segs' = buf"
    using s3 by (simp add: map2_add_zero)
  show ?thesis
    by (rule exI [of _ data'], rule exI [of _ segs'], intro conjI, rule a, rule b, rule s2, rule s3, rule z)
qed

theorem save_round_trip_witness:
  "\<exists>data'. save [demo_obs Map.empty] ''d'' (Array [5, 7]) = Inr data'
      \<and> det_signals data' ''d'' = [Some [5, 7]]"
proof -
  have l: "length [5, 7 :: real] = length (concat [[0, 0 :: real]])" by simp
  from save_round_trip [OF demo_det_signals [of Map.empty] l] obtain data' segs' where
    s: "save [demo_obs Map.empty] ''d'' (Array [5, 7]) = Inr data'"
    and d: "det_signals data' ''d'' = map Some segs'"
    and n: "map length segs' = map length [[0, 0 :: real]]"
    and c: "concat [[0, 0 :: real]] = replicate (length [5, 7 :: real]) 0 \<longrightarrow> concat segs' = [5, 7]"
    by blast
  from c have c': "concat segs' = [5, 7]" by simp
  from n obtain s1 where "segs' = [s1]" by (cases segs') auto
  with c' have "segs' = [[5, 7]]" by simp
  with s d show ?thesis by simp
qed

subsection \<open>Buffers of the wrong length\<close>

text \<open>
  Claim C6, amended. \<^verbatim>\<open>save\<close> makes no check of the buffer's length. A buffer at
  least as long as the views together is accepted: the leading samples are added as in
  C5 and the samples beyond are ignored. A buffer that is too short makes the addition
  to the first view it cannot fill raise numpy's shape error (\<^verbatim>\<open>ValueError\<close>), with
  one exception: when exactly one sample of the buffer falls into the last view that has
  samples, numpy broadcasts it over that view and \<^verbatim>\<open>save\<close> completes.
\<close>

theorem save_length_mismatch:
  assumes "det_signals data det = map Some segs"
  shows "(length (concat segs) \<le> length buf \<longrightarrow>
          (\<exists>data' segs'. save data det (Array buf) = Inr data'
             \<and> det_signals data' det = map Some segs'
             \<and> map length segs' = map length segs
             \<and> concat segs' = map2 (+) (concat segs) (take (length (concat segs)) buf)))
       \<and> (length buf < length (concat segs) \<longrightarrow>
          (if length buf + last_run segs = length (concat segs) + 1
           then \<exists>data'. save data det (Array buf) = Inr data'
           else save data det (Array buf) = Inl ValueError))"
proof (intro conjI impI)
  from assms have f: "map (\<lambda>v. v_det_data v det) (map snd (det_views data det)) = map Some segs"
    by (simp add: det_signals_flat)
  { assume le: "length (concat segs) \<le> length buf"
    let ?mid = "take (length (concat segs)) buf"
    let ?post = "drop (length (concat segs)) buf"
    from le have lm: "length ?mid = length (concat segs)" by simp
    from save_views_adds [OF f lm, of "[]" ?post] obtain vs' segs' where
      sv: "save_views det (Array buf) (map snd (det_views data det)) 0 = Inr (length ?mid, vs')"
      and s1: "map (\<lambda>v. v_det_data v det) vs' = map Some segs'"
      and s2: "map length segs' = map length segs"
      and s3: "concat segs' = map2 (+) (concat segs) ?mid"
      by auto
    from save_obs_flat [of det "Array buf" data 0] sv obtain data' where
      so: "save_obs det (Array buf) data 0 = Inr (length ?mid, data')"
      and fl: "map snd (det_views data' det) = vs'"
      by (auto split: sum.splits prod.splits)
    have a: "save data det (Array buf) = Inr data'"
      using so by (simp add: save_def)
    have b: "det_signals data' det = map Some segs'"
      using s1 fl by (simp add: det_signals_flat)
    show "\<exists>data' segs'. save data det (Array buf) = Inr data'
             \<and> det_signals data' det = map Some segs'
             \<and> map length segs' = map length segs
             \<and> concat segs' = map2 (+) (concat segs) (take (length (concat segs)) buf)"
      by (rule exI [of _ data'], rule exI [of _ segs'], intro conjI, rule a, rule b, rule s2, rule s3) }
  { assume lt: "length buf < length (concat segs)"
    then have lt0: "length buf < 0 + length (concat segs)" by simp
    have z: "0 \<le> length buf" by simp
    show "if length buf + last_run segs = length (concat segs) + 1
           then \<exists>data'. save data det (Array buf) = Inr data'
           else save data det (Array buf) = Inl ValueError"
    proof (cases "length buf + last_run segs = length (concat segs) + 1")
      case True
      with save_views_shortfall [OF f z lt0] obtain r where
        "save_views det (Array buf) (map snd (det_views data det)) 0 = Inr r" by auto
      with save_obs_flat [of det "Array buf" data 0] obtain r' where
        "save_obs det (Array buf) data 0 = Inr r'"
        by (cases "save_obs det (Array buf) data 0") auto
      then have "save data det (Array buf) = Inr (snd r')" by (simp add: save_def)
      with True show ?thesis by auto
    next
      case False
      with save_views_shortfall [OF f z lt0] have
        "save_views det (Array buf) (map snd (det_views data det)) 0 = Inl ValueError" by simp
      with save_obs_flat [of det "Array buf" data 0] have
        "save_obs det (Array buf) data 0 = Inl ValueError"
        by (cases "save_obs det (Array buf) data 0") auto
      then have "save data det (Array buf) = Inl ValueError" by (simp add: save_def)
      with False show ?thesis by simp
    qed }
qed

theorem save_length_mismatch_witness:
  "(\<exists>data'. save [demo_obs Map.empty] ''d'' (Array [5, 7, 9]) = Inr data')
   \<and> save [demo_obs Map.empty] ''d'' (Array []) = Inl ValueError"
proof -
  from save_length_mismatch [OF demo_det_signals [of Map.empty], of "[5, 7, 9]"]
  have a: "\<exists>data'. save [demo_obs Map.empty] ''d'' (Array [5, 7, 9]) = Inr data'"
    by auto
  have lr: "last_run [[0, 0]] = 2" by (simp add: last_run_def)
  from save_length_mismatch [OF demo_det_signals [of Map.empty], of "[]"] lr
  have b: "save [demo_obs Map.empty] ''d'' (Array []) = Inl ValueError"
    by simp
  from a b show ?thesis by (rule conjI)
qed

text \<open>
  Claim C6 as stated fails. The view of the data set has two samples; a buffer of three
  is saved without an error, its third sample dropped, and a buffer of one is saved
  without an error too, its sample added to both samples of the view.
\<close>

theorem save_residual_counterexample:
  "save [demo_obs Map.empty] ''d'' (Array [5, 7, 9])
     = Inr [(demo_obs Map.empty)\<lparr>views := [demo_view\<lparr>v_det_data := [''d'' \<mapsto> [5, 7]]\<rparr>]\<rparr>]
   \<and> save [demo_obs Map.empty] ''d'' (Array [5])
     = Inr [(demo_obs Map.empty)\<lparr>views := [demo_view\<lparr>v_det_data := [''d'' \<mapsto> [5, 5]]\<rparr>]\<rparr>]
   \<and> det_signals [demo_obs Map.empty] ''d'' = [Some [0, 0]]"
  by (simp add: save_def demo_obs_def demo_view_def np_inplace_def det_signals_def det_views_def)

subsection \<open>The scheduler\<close>

text \<open>
  Claim C7. Every process of the communicator gets the same list: the detector names
  that \<^verbatim>\<open>select_local_detectors\<close> gives for any observation of any process, each
  once, in ascending lexicographic order. Two communicators, of any sizes and with their
  observations spread in any way, whose detector names are the same set get the same
  list on each of their ranks.
\<close>

theorem all_detectors:
  "get_all_detectors sel procs
     = replicate (length procs) (sorted_list_of_set (\<Union>p\<in>set procs. \<Union>ob\<in>set p. set (sel ob)))
   \<and> set (sorted_list_of_set (\<Union>p\<in>set procs. \<Union>ob\<in>set p. set (sel ob)))
       = (\<Union>p\<in>set procs. \<Union>ob\<in>set p. set (sel ob))
   \<and> sorted (sorted_list_of_set (\<Union>p\<in>set procs. \<Union>ob\<in>set p. set (sel ob)))
   \<and> distinct (sorted_list_of_set (\<Union>p\<in>set procs. \<Union>ob\<in>set p. set (sel ob)))
   \<and> ((\<Union>p\<in>set procs. \<Union>ob\<in>set p. set (sel ob))
        = (\<Union>p\<in>set procs'. \<Union>ob\<in>set p. set (sel' ob)) \<longrightarrow>
       (\<forall>r<length procs. \<forall>r'<length procs'.
           get_all_detectors sel procs ! r = get_all_detectors sel' procs' ! r'))"
proof -
  have fin: "finite (\<Union>p\<in>set procs. \<Union>ob\<in>set p. set (sel ob))"
    by simp
  have eq: "get_all_detectors sel ps
     = replicate (length ps) (sorted_list_of_set (\<Union>p\<in>set ps. \<Union>ob\<in>set p. set (sel ob)))"
    for sel :: "'x \<Rightarrow> string list" and ps
  proof (cases ps)
    case Nil
    then show ?thesis by simp
  next
    case (Cons rank0 others)
    have f: "fold (\<lambda>some_dets acc. acc \<union> some_dets) (map (my_dets sel) (rank0 # others))
               (my_dets sel rank0)
        = (\<Union>p\<in>set (rank0 # others). \<Union>ob\<in>set p. set (sel ob))"
      by (auto simp: fold_union my_dets_union)
    have "get_all_detectors sel (rank0 # others)
        = map (\<lambda>rank. sorted_list_of_set (\<Union>p\<in>set (rank0 # others). \<Union>ob\<in>set p. set (sel ob)))
              (rank0 # others)"
      by (simp only: get_all_detectors.simps Let_def f)
    then show ?thesis
      unfolding Cons by (simp only: map_replicate_const)
  qed
  show ?thesis
    using fin by (auto simp: eq)
qed

theorem all_detectors_witness:
  "get_all_detectors (\<lambda>ob. ob) [[[''b''], [''d'']], [[''a''], [''c'']]] ! 1
     = get_all_detectors (\<lambda>ob. ob) [[[''d'', ''c'', ''b'', ''a'']]] ! 0
   \<and> get_all_detectors (\<lambda>ob. ob) [[[''b''], [''d'']], [[''a''], [''c'']]]
     = [[''a'', ''b'', ''c'', ''d''], [''a'', ''b'', ''c'', ''d'']]"
proof -
  have u: "(\<Union>p\<in>set [[[''b''], [''d'']], [[''a''], [''c'']]]. \<Union>ob\<in>set p. set ((\<lambda>ob. ob) ob))
         = (\<Union>p\<in>set [[[''d'', ''c'', ''b'', ''a'']]]. \<Union>ob\<in>set p. set ((\<lambda>ob. ob) ob))"
    by auto
  from all_detectors [of "\<lambda>ob. ob" "[[[''b''], [''d'']], [[''a''], [''c'']]]"
                         "\<lambda>ob. ob" "[[[''d'', ''c'', ''b'', ''a'']]]"] u
  have "\<forall>r<length [[[''b''], [''d'']], [[''a''], [''c'']]]. \<forall>r'<length [[[''d'', ''c'', ''b'', ''a'']]].
          get_all_detectors (\<lambda>ob. ob) [[[''b''], [''d'']], [[''a''], [''c'']]] ! r
        = get_all_detectors (\<lambda>ob. ob) [[[''d'', ''c'', ''b'', ''a'']]] ! r'"
    by blast
  then have a: "get_all_detectors (\<lambda>ob. ob) [[[''b''], [''d'']], [[''a''], [''c'']]] ! 1
     = get_all_detectors (\<lambda>ob. ob) [[[''d'', ''c'', ''b'', ''a'']]] ! 0"
    by simp
  have b: "get_all_detectors (\<lambda>ob. ob) [[[''b''], [''d'']], [[''a''], [''c'']]]
     = [[''a'', ''b'', ''c'', ''d''], [''a'', ''b'', ''c'', ''d'']]"
    by code_simp
  from a b show ?thesis by (rule conjI)
qed

subsection \<open>The polarization angle array\<close>



subsection \<open>A detector without views\<close>

text \<open>
  Claim C9. For a detector that the loops find in no view (it is local to no
  observation of the process, or only to observations without views), in observations
  whose focal plane describes their local detectors: \<^verbatim>\<open>get_pointing\<close> returns four
  empty sequences; the pointing buffer has no rows; the convolution result is
  \<^verbatim>\<open>None\<close>; the weighted combination is an empty array; calibration returns its
  buffer as it is; accumulation leaves the data as they are; and both strategies
  complete for the detector with the data unchanged.
\<close>

theorem zero_length_no_op:
  assumes "det_views data det = []"
    and "list_all (\<lambda>ob. det \<in> set (local_detectors ob) \<longrightarrow> focalplane ob det \<noteq> None) data"
  shows "get_pointing E cfg data det = Inr ([], [], [], [])
    \<and> get_buffer [] [] [] = Inr []
    \<and> convolve E sky bm [] = PyNone
    \<and> weighted_convolve E sky bI bQ bU [] [] [] [] = Inr (Array [])
    \<and> calibrate_signal E cfg data det bm PyNone = Inr PyNone
    \<and> calibrate_signal E cfg data det bI (Array []) = Inr (Array [])
    \<and> save data det PyNone = Inr data
    \<and> save data det (Array []) = Inr data
    \<and> exec_det E cfg data det sky bm = Inr data
    \<and> exec_weighted_det E cfg data det sky bI bQ bU = Inr data"
proof -
  have gp: "get_pointing E cfg data det = Inr ([], [], [], [])"
    using assms(1) by (simp add: get_pointing_def)
  have gb: "get_buffer [] [] [] = Inr []"
    by (simp add: get_buffer_def)
  have cv: "convolve E sky b [] = PyNone" for b
    by (simp add: convolve_def)
  have wc: "weighted_convolve E sky bI bQ bU [] [] [] [] = Inr (Array [])"
    by (simp add: weighted_convolve_def gb cv np_multiply_def np_iadd_def np_inplace_def)
  have cal: "calibrate_signal E cfg data det b buf = Inr buf" for b buf
    by (simp add: calibrate_signal_def calibrate_obs_no_views [OF assms])
  have sv: "save data det buf = Inr data" for buf
    by (simp add: save_def save_obs_no_views [OF assms(1)])
  have ex: "exec_det E cfg data det sky bm = Inr data"
    by (simp add: exec_det_def gp gb cv cal sv)
  have exw: "exec_weighted_det E cfg data det sky bI bQ bU = Inr data"
    by (simp add: exec_weighted_det_def gp wc cal sv)
  from gp gb cv wc cal sv ex exw show ?thesis by simp
qed

theorem zero_length_no_op_witness:
  "get_pointing demo_env demo_cfg [demo_obs Map.empty, \<lparr>local_detectors = [''x''], focalplane = [''x'' \<mapsto> Map.empty], views = []\<rparr>] ''x'' = Inr ([], [], [], [])
   \<and> exec_det demo_env demo_cfg [demo_obs Map.empty, \<lparr>local_detectors = [''x''], focalplane = [''x'' \<mapsto> Map.empty], views = []\<rparr>] ''x'' () demo_beam
       = Inr [demo_obs Map.empty, \<lparr>local_detectors = [''x''], focalplane = [''x'' \<mapsto> Map.empty], views = []\<rparr>]
   \<and> exec_weighted_det demo_env demo_cfg [demo_obs Map.empty, \<lparr>local_detectors = [''x''], focalplane = [''x'' \<mapsto> Map.empty], views = []\<rparr>] ''x'' () demo_beam demo_beam demo_beam
       = Inr [demo_obs Map.empty, \<lparr>local_detectors = [''x''], focalplane = [''x'' \<mapsto> Map.empty], views = []\<rparr>]"
proof -
  have a: "det_views [demo_obs Map.empty, \<lparr>local_detectors = [''x''], focalplane = [''x'' \<mapsto> Map.empty], views = []\<rparr>] ''x'' = []"
    by (simp add: det_views_def demo_obs_def)
  have b: "list_all (\<lambda>ob. ''x'' \<in> set (local_detectors ob) \<longrightarrow> focalplane ob ''x'' \<noteq> None)
     [demo_obs Map.empty, \<lparr>local_detectors = [''x''], focalplane = [''x'' \<mapsto> (Map.empty :: real row)], views = []\<rparr>]"
    by (simp add: demo_obs_def)
  from zero_length_no_op [OF a b, of demo_env demo_cfg "()" demo_beam demo_beam demo_beam demo_beam]
  show ?thesis by simp
qed

subsection \<open>The polarization angle of a detector\<close>

text \<open>
  Claim C10. The claim lets \<^verbatim>\<open>_get_psi_pol\<close> return a value whenever the row has a
  \<^verbatim>\<open>psi_pol\<close> or a \<^verbatim>\<open>pol_angle\<close> column. On a row that has the column
  \<^verbatim>\<open>psi_pol\<close> and no column \<^verbatim>\<open>pol_angle\<close> the first branch reads
  \<^verbatim>\<open>props["pol_angle"]\<close> all the same, and the method raises \<^verbatim>\<open>KeyError\<close>: it
  neither returns an angle nor raises the \<^verbatim>\<open>RuntimeError\<close> of a missing angle. The
  method returns exactly on the rows that have a \<^verbatim>\<open>pol_angle\<close> column, and then that
  column in radians; it raises \<^verbatim>\<open>RuntimeError\<close> exactly when the detector is not in
  the focal plane or the row has neither column.
\<close>

theorem get_psi_pol_reads_pol_angle:
  "get_psi_pol E [''d'' \<mapsto> [''psi_pol'' \<mapsto> c]] ''d'' = Inl KeyError
   \<and> (get_psi_pol E fp det = Inr x)
       = (\<exists>props a. fp det = Some props \<and> props ''pol_angle'' = Some a \<and> x = to_radian E a)
   \<and> (get_psi_pol E fp det = Inl RuntimeError)
       = (fp det = None
          \<or> (\<exists>props. fp det = Some props \<and> props ''psi_pol'' = None \<and> props ''pol_angle'' = None))"
proof -
  have a: "get_psi_pol E [''d'' \<mapsto> [''psi_pol'' \<mapsto> c]] ''d'' = Inl KeyError"
    by (simp add: get_psi_pol_def)
  have b: "(get_psi_pol E fp det = Inr x)
       = (\<exists>props a. fp det = Some props \<and> props ''pol_angle'' = Some a \<and> x = to_radian E a)"
    by (auto simp: get_psi_pol_def split: option.splits)
  have c: "(get_psi_pol E fp det = Inl RuntimeError)
       = (fp det = None
          \<or> (\<exists>props. fp det = Some props \<and> props ''psi_pol'' = None \<and> props ''pol_angle'' = None))"
    by (auto simp: get_psi_pol_def split: option.splits)
  from a b c show ?thesis by (intro conjI)
qed

end
